theory Spec2Isabelle
  imports Complex_Main "HOL-Library.AList"
begin

section \<open>Python text operations used by the parsers\<close>

text \<open>
  Strings are lists of 8-bit characters, read as the code points \<open>U+0000\<close> to
  \<open>U+00FF\<close>: the development covers text in that range. \<open>is_space\<close> lists the
  characters of the range for which Python's \<open>str.isspace\<close> holds; \<open>str.strip()\<close>
  drops them at either end.
\<close>

definition is_space :: "char \<Rightarrow> bool" where
  "is_space c = (c \<in> set [CHR 0x09, CHR 0x0A, CHR 0x0B, CHR 0x0C, CHR 0x0D,
                            CHR 0x1C, CHR 0x1D, CHR 0x1E, CHR 0x1F, CHR 0x20,
                            CHR 0x85, CHR 0xA0])"

definition py_strip :: "string \<Rightarrow> string" where
  "py_strip s = rev (dropWhile is_space (rev (dropWhile is_space s)))"

text \<open>\<open>s.replace(",", "")\<close>\<close>

definition remove_commas :: "string \<Rightarrow> string" where
  "remove_commas s = filter (\<lambda>c. c \<noteq> CHR '','') s"

text \<open>
  \<open>s.split(sep)\<close> for a non-empty separator: the occurrences of \<open>sep\<close> are found from
  the left and do not overlap; \<open>cur\<close> holds the current segment, reversed.
\<close>

function py_split :: "string \<Rightarrow> string \<Rightarrow> string \<Rightarrow> string list" where
  "py_split sep cur [] = [rev cur]"
| "py_split sep cur (c # cs) =
     (if sep \<noteq> [] \<and> take (length sep) (c # cs) = sep
      then rev cur # py_split sep [] (drop (length sep) (c # cs))
      else py_split sep (c # cur) cs)"
  by pat_completeness auto
termination
  by (relation "measure (\<lambda>(sep, cur, s). length s)") auto

definition is_digit :: "char \<Rightarrow> bool" where
  "is_digit c = (c \<in> set ''0123456789'')"

definition digit_val :: "char \<Rightarrow> nat" where
  "digit_val c = of_char c - 48"

definition digits_val :: "string \<Rightarrow> nat" where
  "digits_val s = foldl (\<lambda>n c. 10 * n + digit_val c) 0 s"

fun digits_of_nat :: "nat \<Rightarrow> string" where
  "digits_of_nat n =
     (if n < 10 then [''0123456789'' ! n]
      else digits_of_nat (n div 10) @ [''0123456789'' ! (n mod 10)])"

declare digits_of_nat.simps [simp del]

definition str_of_int :: "int \<Rightarrow> string" where
  "str_of_int i = (if i < 0 then CHR ''-'' # digits_of_nat (nat (- i)) else digits_of_nat (nat i))"

definition ascii_lower :: "char \<Rightarrow> char" where
  "ascii_lower c =
     (if 65 \<le> (of_char c :: nat) \<and> (of_char c :: nat) \<le> 90 then char_of (of_char c + 32 :: nat) else c)"

section \<open>Calendar dates and \<open>datetime.strptime(s, "%m/%d/%Y").date()\<close>\<close>

record date =
  year :: nat
  month :: nat
  day :: nat

definition date_le :: "date \<Rightarrow> date \<Rightarrow> bool" where
  "date_le a b =
     (year a < year b \<or> (year a = year b \<and> (month a < month b \<or> (month a = month b \<and> day a \<le> day b))))"

definition is_leap :: "nat \<Rightarrow> bool" where
  "is_leap y = (y mod 4 = 0 \<and> (y mod 100 \<noteq> 0 \<or> y mod 400 = 0))"

definition days_in_month :: "nat \<Rightarrow> nat \<Rightarrow> nat" where
  "days_in_month y m =
     (if m = 2 then (if is_leap y then 29 else 28)
      else if m \<in> {4, 6, 9, 11} then 30 else 31)"

text \<open>
  What \<open>strptime\<close> reports; each is a \<open>ValueError\<close> in Python:
  the text does not match the format, text is left after the year, or the three numbers
  are not a date of the calendar (\<open>datetime.date\<close> refuses year 0 and a day past the
  month's end).
\<close>

datatype strptime_error =
    TimeDataMismatch string
  | UnconvertedData string
  | YearOutOfRange
  | DayOutOfRange

text \<open>
  The directives compile to regular expressions: \<open>%m\<close> is \<open>1[0-2]|0[1-9]|[1-9]\<close>,
  \<open>%d\<close> is \<open>3[0-1]|[1-2]\d|0[1-9]|[1-9]| [1-9]\<close> and \<open>%Y\<close> is \<open>\d\d\d\d\<close>. Neither
  of the first two matches a slash, so with the slashes of the format the month is the
  text before the first slash and the day the text between the first two.
\<close>

definition month_token :: "string \<Rightarrow> nat option" where
  "month_token t =
     (case t of
        [a] \<Rightarrow> if is_digit a \<and> a \<noteq> CHR ''0'' then Some (digit_val a) else None
      | [a, b] \<Rightarrow>
          if a = CHR ''1'' \<and> b \<in> set ''012'' then Some (10 + digit_val b)
          else if a = CHR ''0'' \<and> is_digit b \<and> b \<noteq> CHR ''0'' then Some (digit_val b)
          else None
      | _ \<Rightarrow> None)"

definition day_token :: "string \<Rightarrow> nat option" where
  "day_token t =
     (case t of
        [a] \<Rightarrow> if is_digit a \<and> a \<noteq> CHR ''0'' then Some (digit_val a) else None
      | [a, b] \<Rightarrow>
          if a = CHR ''3'' \<and> b \<in> set ''01'' then Some (30 + digit_val b)
          else if a \<in> set ''12'' \<and> is_digit b then Some (10 * digit_val a + digit_val b)
          else if a \<in> set ''0 '' \<and> is_digit b \<and> b \<noteq> CHR ''0'' then Some (digit_val b)
          else None
      | _ \<Rightarrow> None)"

definition make_date :: "nat \<Rightarrow> nat \<Rightarrow> nat \<Rightarrow> strptime_error + date" where
  "make_date y m d =
     (if y < 1 then Inl YearOutOfRange
      else if days_in_month y m < d then Inl DayOutOfRange
      else Inr \<lparr>year = y, month = m, day = d\<rparr>)"

definition strptime_mdY :: "string \<Rightarrow> strptime_error + date" where
  "strptime_mdY s =
     (let not_slash = (\<lambda>c. c \<noteq> CHR ''/'');
          after_month = dropWhile not_slash s;
          after_day = dropWhile not_slash (drop 1 after_month);
          year_text = take 4 (drop 1 after_day);
          rest = drop 5 after_day
      in case (month_token (takeWhile not_slash s), day_token (takeWhile not_slash (drop 1 after_month))) of
           (Some m, Some d) \<Rightarrow>
             if after_month \<noteq> [] \<and> after_day \<noteq> [] \<and> length year_text = 4 \<and> list_all is_digit year_text
             then (if rest \<noteq> [] then Inl (UnconvertedData rest) else make_date (digits_val year_text) m d)
             else Inl (TimeDataMismatch s)
         | _ \<Rightarrow> Inl (TimeDataMismatch s))"

section \<open>Python floats\<close>

text \<open>
  A float is an IEEE 754 double: a finite value, an infinity or NaN. A finite double is
  kept as the rational number it denotes (the two zeros are not told apart).
  \<open>round_double\<close> rounds a rational to the nearest double, ties to even, and gives
  \<open>None\<close> when the rounded value is beyond the largest double.
\<close>

datatype pyfloat = Finite rat | PosInf | NegInf | NaN

fun nbits :: "nat \<Rightarrow> nat" where
  "nbits n = (if n = 0 then 0 else Suc (nbits (n div 2)))"

declare nbits.simps [simp del]

definition floor_log2 :: "rat \<Rightarrow> int" where
  "floor_log2 q =
     (let d = int (nbits (nat (fst (quotient_of q)))) - int (nbits (nat (snd (quotient_of q))))
      in if 2 powi d \<le> q then d else d - 1)"

definition round_half_even :: "rat \<Rightarrow> int" where
  "round_half_even x =
     (let f = \<lfloor>x\<rfloor>; r = x - of_int f
      in if r < 1 / 2 then f else if 1 / 2 < r then f + 1 else if even f then f else f + 1)"

definition round_double :: "rat \<Rightarrow> rat option" where
  "round_double q =
     (if q = 0 then Some 0
      else let e = max (floor_log2 \<bar>q\<bar> - 52) (- 1074);
               r = of_int (round_half_even (q / 2 powi e)) * 2 powi e
           in if \<bar>r\<bar> < 2 ^ 1024 then Some r else None)"

definition is_double :: "rat \<Rightarrow> bool" where
  "is_double q = (round_double q = Some q)"

text \<open>Python's \<open><\<close> on floats: every comparison with NaN is false.\<close>

fun py_lt :: "pyfloat \<Rightarrow> pyfloat \<Rightarrow> bool" where
  "py_lt NaN _ = False"
| "py_lt _ NaN = False"
| "py_lt (Finite a) (Finite b) = (a < b)"
| "py_lt (Finite a) PosInf = True"
| "py_lt NegInf (Finite b) = True"
| "py_lt NegInf PosInf = True"
| "py_lt _ _ = False"

definition py_ge :: "pyfloat \<Rightarrow> pyfloat \<Rightarrow> bool" where
  "py_ge a b = (a \<noteq> NaN \<and> b \<noteq> NaN \<and> \<not> py_lt a b)"

subsection \<open>\<open>float(str)\<close>\<close>

text \<open>
  The text \<open>float\<close> accepts, after stripping white space and a sign: \<open>inf\<close>,
  \<open>infinity\<close> or \<open>nan\<close> in any case, or a decimal number
  \<open>[digitpart] "." digitpart | digitpart ["."]\<close> with an optional exponent
  \<open>("e" | "E") ["+" | "-"] digitpart\<close>, where \<open>digitpart\<close> is
  \<open>digit (["_"] digit)*\<close>. The decimal value is rounded to the nearest double; a value
  too large becomes an infinity.
\<close>

text \<open>
  \<open>float\<close> turns the white space above \<open>U+007F\<close> into blanks and then strips with C's
  \<open>isspace\<close>, which does not hold for the four separator characters \<open>0x1C\<close> to
  \<open>0x1F\<close> that \<open>str.strip()\<close> removes.
\<close>

definition is_c_space :: "char \<Rightarrow> bool" where
  "is_c_space c = (c \<in> set [CHR 0x09, CHR 0x0A, CHR 0x0B, CHR 0x0C, CHR 0x0D, CHR 0x20,
                              CHR 0x85, CHR 0xA0])"

definition float_strip :: "string \<Rightarrow> string" where
  "float_strip s = rev (dropWhile is_c_space (rev (dropWhile is_c_space s)))"

fun digitpart :: "string \<Rightarrow> bool" where
  "digitpart [] = False"
| "digitpart [c] = is_digit c"
| "digitpart (c # d # cs) = (is_digit c \<and> (if d = CHR ''_'' then digitpart cs else digitpart (d # cs)))"

definition exponent_value :: "string \<Rightarrow> int option" where
  "exponent_value t =
     (if t = [] then Some 0
      else let u = drop 1 t;
               ds = (if u \<noteq> [] \<and> hd u \<in> set ''+-'' then tl u else u);
               n = int (digits_val (filter is_digit ds))
           in if digitpart ds then Some (if u \<noteq> [] \<and> hd u = CHR ''-'' then - n else n) else None)"

definition decimal_value :: "string \<Rightarrow> rat option" where
  "decimal_value s =
     (let not_e = (\<lambda>c. c \<noteq> CHR ''e'' \<and> c \<noteq> CHR ''E'');
          not_dot = (\<lambda>c. c \<noteq> CHR ''.'');
          mant = takeWhile not_e s;
          ipart = takeWhile not_dot mant;
          frac = dropWhile not_dot mant;
          fpart = drop 1 frac;
          mant_ok = (if frac = [] then digitpart ipart
                     else (ipart = [] \<or> digitpart ipart) \<and> (fpart = [] \<or> digitpart fpart)
                          \<and> (ipart \<noteq> [] \<or> fpart \<noteq> []))
      in case exponent_value (dropWhile not_e s) of
           None \<Rightarrow> None
         | Some x \<Rightarrow>
             if mant_ok
             then Some (of_nat (digits_val (filter is_digit (ipart @ fpart)))
                        * 10 powi (x - int (length (filter is_digit fpart))))
             else None)"

definition py_float_str :: "string \<Rightarrow> pyfloat option" where
  "py_float_str s =
     (let t = float_strip s;
          neg = (t \<noteq> [] \<and> hd t = CHR ''-'');
          body = (if t \<noteq> [] \<and> hd t \<in> set ''+-'' then tl t else t);
          low = map ascii_lower body
      in if low = ''inf'' \<or> low = ''infinity'' then Some (if neg then NegInf else PosInf)
         else if low = ''nan'' then Some NaN
         else case decimal_value body of
                None \<Rightarrow> None
              | Some q \<Rightarrow>
                  (case round_double (if neg then - q else q) of
                     Some r \<Rightarrow> Some (Finite r)
                   | None \<Rightarrow> Some (if neg then NegInf else PosInf)))"

section \<open>Cell values\<close>

text \<open>
  What a worksheet cell holds after \<open>load_workbook(..., data_only=True)\<close>: nothing,
  text, an integer, a float or a truth value. \<open>COther\<close> stands for a cell object of
  another class (date-formatted cells give \<open>datetime\<close>, \<open>time\<close> or \<open>timedelta\<close>
  objects); it carries the text \<open>str()\<close> gives for it, the only thing the parsers read
  from such an object.
\<close>

datatype cell_value = CNone | CStr string | CInt int | CFloat pyfloat | CBool bool | COther string

datatype py_exc = ValueErr | TypeErr | OverflowErr

text \<open>\<open>float(v)\<close>: an integer is rounded to a double, and one too large raises OverflowError.\<close>

definition py_float :: "cell_value \<Rightarrow> py_exc + pyfloat" where
  "py_float v =
     (case v of
        CNone \<Rightarrow> Inl TypeErr
      | CStr s \<Rightarrow> (case py_float_str s of None \<Rightarrow> Inl ValueErr | Some f \<Rightarrow> Inr f)
      | CInt n \<Rightarrow> (case round_double (of_int n) of None \<Rightarrow> Inl OverflowErr | Some r \<Rightarrow> Inr (Finite r))
      | CFloat f \<Rightarrow> Inr f
      | CBool b \<Rightarrow> Inr (Finite (if b then 1 else 0))
      | COther _ \<Rightarrow> Inl TypeErr)"

definition trunc :: "rat \<Rightarrow> int" where
  "trunc q = (if 0 \<le> q then \<lfloor>q\<rfloor> else \<lceil>q\<rceil>)"

text \<open>\<open>int(f)\<close> truncates towards zero; NaN raises ValueError, an infinity OverflowError.\<close>

definition py_int :: "pyfloat \<Rightarrow> py_exc + int" where
  "py_int f =
     (case f of
        Finite q \<Rightarrow> Inr (trunc q)
      | NaN \<Rightarrow> Inl ValueErr
      | _ \<Rightarrow> Inl OverflowErr)"

text \<open>The truth value of a cell, as \<open>if v\<close> reads it.\<close>

definition truthy :: "cell_value \<Rightarrow> bool" where
  "truthy v =
     (case v of
        CNone \<Rightarrow> False
      | CStr s \<Rightarrow> s \<noteq> []
      | CInt n \<Rightarrow> n \<noteq> 0
      | CFloat f \<Rightarrow> f \<noteq> Finite 0
      | CBool b \<Rightarrow> b
      | COther _ \<Rightarrow> True)"

text \<open>
  \<open>str(v)\<close>. The text of a float is Python's shortest round-trip representation, which
  is not part of this repository: it is the parameter \<open>float_repr\<close>.
\<close>

definition py_str :: "(pyfloat \<Rightarrow> string) \<Rightarrow> cell_value \<Rightarrow> string" where
  "py_str float_repr v =
     (case v of
        CNone \<Rightarrow> ''None''
      | CStr s \<Rightarrow> s
      | CInt n \<Rightarrow> str_of_int n
      | CFloat f \<Rightarrow> float_repr f
      | CBool b \<Rightarrow> (if b then ''True'' else ''False'')
      | COther s \<Rightarrow> s)"

section \<open>Errors\<close>

text \<open>
  The parsers raise \<open>ValueError\<close> with a message; each constructor is one raise site and
  carries what the message is formatted from. \<open>OverflowError\<close> and \<open>KeyError\<close> are
  the exceptions of Python itself that the \<open>except\<close> clauses of the DISCOVERY parser do
  not catch.
\<close>

datatype date_cause =
    ExpectedFormat string
  | Strptime strptime_error

datatype error =
    MissingFields "string set"
  | DateRangeError string date_cause
  | IntegerValueError cell_value py_exc
  | ExtractError error
  | SheetNotFound
  | TopPostsError error
  | OverflowError
  | KeyError string

datatype exc_class = ValueError_class | OverflowError_class | KeyError_class

fun class_of :: "error \<Rightarrow> exc_class" where
  "class_of OverflowError = OverflowError_class"
| "class_of (KeyError k) = KeyError_class"
| "class_of _ = ValueError_class"

section \<open>The DISCOVERY parser (\<open>utils/discovery_parser.py\<close>)\<close>

record DiscoveryData =
  start_date :: date
  end_date :: date
  total_impressions :: int
  members_reached :: int

text \<open>
  \<open>parse_date_range\<close>: the \<open>ValueError\<close> raised for a wrong number of segments and the
  one \<open>strptime\<close> raises are both caught by the function's own \<open>except\<close> clause and
  raised again as "Failed to parse date range '{date_range_str}': {e}".
\<close>

definition parse_date_range :: "string \<Rightarrow> error + (date \<times> date)" where
  "parse_date_range date_range_str =
     (let dates = py_split '' - '' [] (py_strip date_range_str)
      in if length dates \<noteq> 2
         then Inl (DateRangeError date_range_str (ExpectedFormat date_range_str))
         else case strptime_mdY (py_strip (dates ! 0)) of
                Inl e \<Rightarrow> Inl (DateRangeError date_range_str (Strptime e))
              | Inr first_day \<Rightarrow>
                  (case strptime_mdY (py_strip (dates ! 1)) of
                     Inl e \<Rightarrow> Inl (DateRangeError date_range_str (Strptime e))
                   | Inr last_day \<Rightarrow> Inr (first_day, last_day)))"

text \<open>
  \<open>parse_integer_value\<close>: \<open>int(float(value))\<close> after commas and surrounding white space
  are removed from a text value. ValueError and TypeError are caught and raised again
  with the (rewritten) value; the OverflowError of \<open>int(float('inf'))\<close> or of an integer
  beyond the doubles is not.
\<close>

definition parse_integer_value :: "cell_value \<Rightarrow> error + int" where
  "parse_integer_value v =
     (let value = (case v of CStr s \<Rightarrow> CStr (py_strip (remove_commas s)) | _ \<Rightarrow> v)
      in case py_float value of
           Inl OverflowErr \<Rightarrow> Inl OverflowError
         | Inl e \<Rightarrow> Inl (IntegerValueError value e)
         | Inr f \<Rightarrow>
             (case py_int f of
                Inl OverflowErr \<Rightarrow> Inl OverflowError
              | Inl e \<Rightarrow> Inl (IntegerValueError value e)
              | Inr n \<Rightarrow> Inr n))"

definition required_fields :: "string set" where
  "required_fields = {''Overall Performance'', ''Impressions'', ''Members reached''}"

text \<open>\<open>d[k]\<close> on a dictionary.\<close>

definition getitem :: "(string \<rightharpoonup> 'a) \<Rightarrow> string \<Rightarrow> error + 'a" where
  "getitem d k = (case d k of None \<Rightarrow> Inl (KeyError k) | Some v \<Rightarrow> Inr v)"

text \<open>The \<open>try\<close> block of \<open>extract_discovery_data\<close>, before its \<open>except ValueError\<close>.\<close>

definition extract_body :: "(pyfloat \<Rightarrow> string) \<Rightarrow> (string \<rightharpoonup> cell_value) \<Rightarrow> error + DiscoveryData" where
  "extract_body float_repr discovery_cells =
     (case getitem discovery_cells ''Overall Performance'' of
        Inl e \<Rightarrow> Inl e
      | Inr overall \<Rightarrow>
     (case parse_date_range (py_str float_repr overall) of
        Inl e \<Rightarrow> Inl e
      | Inr (first_day, last_day) \<Rightarrow>
     (case getitem discovery_cells ''Impressions'' of
        Inl e \<Rightarrow> Inl e
      | Inr imp \<Rightarrow>
     (case parse_integer_value imp of
        Inl e \<Rightarrow> Inl e
      | Inr impressions \<Rightarrow>
     (case getitem discovery_cells ''Members reached'' of
        Inl e \<Rightarrow> Inl e
      | Inr mem \<Rightarrow>
     (case parse_integer_value mem of
        Inl e \<Rightarrow> Inl e
      | Inr reached \<Rightarrow>
          Inr \<lparr>start_date = first_day, end_date = last_day,
               total_impressions = impressions, members_reached = reached\<rparr>))))))"

definition extract_discovery_data :: "(pyfloat \<Rightarrow> string) \<Rightarrow> (string \<rightharpoonup> cell_value) \<Rightarrow> error + DiscoveryData" where
  "extract_discovery_data float_repr discovery_cells =
     (if \<not> required_fields \<subseteq> dom discovery_cells
      then Inl (MissingFields (required_fields - dom discovery_cells))
      else case extract_body float_repr discovery_cells of
             Inl e \<Rightarrow> (if class_of e = ValueError_class then Inl (ExtractError e) else Inl e)
           | Inr d \<Rightarrow> Inr d)"

section \<open>The TOP POSTS parser (\<open>utils/top_posts_parser.py\<close>)\<close>

text \<open>
  A post is the dictionary the parser builds, with the keys \<open>url\<close>, \<open>publish_date\<close>,
  \<open>engagements\<close> and \<open>impressions\<close>; \<open>rank\<close> is \<open>None\<close> until \<open>get_top_posts\<close>
  adds the key. The default count is Python's integer \<open>0\<close>, which compares equal to the
  float \<open>0.0\<close> and sorts like it: both are \<open>Finite 0\<close> here.
\<close>

record post =
  url :: string
  publish_date :: string
  engagements :: pyfloat
  impressions :: pyfloat
  rank :: "nat option"

text \<open>A worksheet: \<open>ws.max_row\<close> and \<open>ws.cell(row, column).value\<close>.\<close>

record worksheet =
  max_row :: nat
  cell :: "nat \<Rightarrow> nat \<Rightarrow> cell_value"

type_synonym workbook = "string \<rightharpoonup> worksheet"

text \<open>
  The dictionary \<open>posts\<close> keeps its keys in insertion order, and assigning to a key it
  already holds keeps the key's place: an association list under \<open>AList.update\<close>.
\<close>

type_synonym posts_dict = "(string \<times> post) list"

text \<open>
  \<open>float(v) if v else 0\<close> inside \<open>try ... except (ValueError, TypeError)\<close>: the
  OverflowError of an integer beyond the doubles is not caught there.
\<close>

definition float_or_zero :: "cell_value \<Rightarrow> error + pyfloat" where
  "float_or_zero v =
     (if truthy v
      then (case py_float v of
              Inr f \<Rightarrow> Inr f
            | Inl OverflowErr \<Rightarrow> Inl OverflowError
            | Inl _ \<Rightarrow> Inr (Finite 0))
      else Inr (Finite 0))"

text \<open>The first loop, over the row numbers still to visit: columns A to C.\<close>

fun scan_engagements :: "(pyfloat \<Rightarrow> string) \<Rightarrow> worksheet \<Rightarrow> nat list \<Rightarrow> posts_dict \<Rightarrow> error + posts_dict" where
  "scan_engagements float_repr ws [] posts = Inr posts"
| "scan_engagements float_repr ws (row_idx # rows) posts =
     (if (cell ws row_idx 1 = CNone \<or> cell ws row_idx 2 = CNone \<or> cell ws row_idx 3 = CNone)
         \<and> (cell ws row_idx 1 = CNone \<and> cell ws row_idx 2 = CNone \<and> cell ws row_idx 3 = CNone)
      then Inr posts
      else if cell ws row_idx 1 = CNone \<or> cell ws row_idx 2 = CNone
      then scan_engagements float_repr ws rows posts
      else case float_or_zero (cell ws row_idx 3) of
             Inl e \<Rightarrow> Inl e
           | Inr engagements_count \<Rightarrow>
               scan_engagements float_repr ws rows
                 (AList.update (py_str float_repr (cell ws row_idx 1))
                    \<lparr>url = py_str float_repr (cell ws row_idx 1),
                     publish_date = py_str float_repr (cell ws row_idx 2),
                     engagements = engagements_count,
                     impressions = Finite 0,
                     rank = None\<rparr> posts))"

text \<open>The second loop: columns E and G.\<close>

fun scan_impressions :: "(pyfloat \<Rightarrow> string) \<Rightarrow> worksheet \<Rightarrow> nat list \<Rightarrow> posts_dict \<Rightarrow> error + posts_dict" where
  "scan_impressions float_repr ws [] posts = Inr posts"
| "scan_impressions float_repr ws (row_idx # rows) posts =
     (if cell ws row_idx 5 = CNone \<or> cell ws row_idx 7 = CNone
      then (if cell ws row_idx 5 = CNone \<and> cell ws row_idx 7 = CNone
            then Inr posts
            else scan_impressions float_repr ws rows posts)
      else case float_or_zero (cell ws row_idx 7) of
             Inl e \<Rightarrow> Inl e
           | Inr impressions_count \<Rightarrow>
               scan_impressions float_repr ws rows
                 (case map_of posts (py_str float_repr (cell ws row_idx 5)) of
                    Some p \<Rightarrow>
                      AList.update (py_str float_repr (cell ws row_idx 5))
                        (p\<lparr>impressions := impressions_count\<rparr>) posts
                  | None \<Rightarrow>
                      AList.update (py_str float_repr (cell ws row_idx 5))
                        \<lparr>url = py_str float_repr (cell ws row_idx 5),
                         publish_date = [],
                         engagements = Finite 0,
                         impressions = impressions_count,
                         rank = None\<rparr> posts))"

text \<open>\<open>range(4, ws.max_row + 1)\<close>\<close>

definition data_rows :: "worksheet \<Rightarrow> nat list" where
  "data_rows ws = [4..<Suc (max_row ws)]"

text \<open>The dictionary after both loops, as the source runs them: engagements, then impressions.\<close>

definition merged_posts :: "(pyfloat \<Rightarrow> string) \<Rightarrow> worksheet \<Rightarrow> error + posts_dict" where
  "merged_posts float_repr ws =
     (case scan_engagements float_repr ws (data_rows ws) [] of
        Inl e \<Rightarrow> Inl e
      | Inr posts \<Rightarrow> scan_impressions float_repr ws (data_rows ws) posts)"

text \<open>
  \<open>posts_list.sort(key=lambda x: x["engagements"], reverse=True)\<close>. Python's sort
  compares keys with \<open><\<close> only and is stable, also when reversed; on keys that \<open><\<close>
  orders totally, that is when none is NaN, its result is the one of this insertion sort,
  and so it is on every list of at most two records. With a NaN among the keys of a
  longer list the order Python gives depends on how its sort finds and merges runs and
  can differ from the one computed here: for such lists this function gives the records
  of the result, not their order, and nothing below relies on that order.
\<close>

fun insert_desc :: "post \<Rightarrow> post list \<Rightarrow> post list" where
  "insert_desc p [] = [p]"
| "insert_desc p (q # qs) =
     (if py_lt (engagements p) (engagements q) then q # insert_desc p qs else p # q # qs)"

definition sort_by_engagements_desc :: "post list \<Rightarrow> post list" where
  "sort_by_engagements_desc ps = foldr insert_desc ps []"

text \<open>
  \<open>parse_top_posts_sheet\<close>, given the workbook \<open>load_workbook\<close> returns. Every exception
  raised inside is caught and raised again as "Failed to parse TOP POSTS sheet: {e}".
\<close>

definition parse_top_posts_sheet :: "(pyfloat \<Rightarrow> string) \<Rightarrow> workbook \<Rightarrow> error + post list" where
  "parse_top_posts_sheet float_repr wb =
     (case wb ''TOP POSTS'' of
        None \<Rightarrow> Inl (TopPostsError SheetNotFound)
      | Some ws \<Rightarrow>
          (case merged_posts float_repr ws of
             Inl e \<Rightarrow> Inl (TopPostsError e)
           | Inr posts \<Rightarrow> Inr (sort_by_engagements_desc (map snd posts))))"

subsection \<open>\<open>get_top_posts\<close>\<close>

text \<open>
  The argument is a list of references to dictionaries; \<open>posts[:6]\<close> is a new list of the
  same references, and \<open>post["rank"] = idx\<close> writes through a reference. The store maps
  each reference to the dictionary it points to; the function returns the store it leaves
  and the list it returns.
\<close>

type_synonym ref = nat

type_synonym store = "ref \<Rightarrow> post"

fun assign_ranks :: "store \<Rightarrow> nat \<Rightarrow> ref list \<Rightarrow> store" where
  "assign_ranks h idx [] = h"
| "assign_ranks h idx (r # rs) = assign_ranks (h(r := (h r)\<lparr>rank := Some idx\<rparr>)) (Suc idx) rs"

definition get_top_posts :: "store \<Rightarrow> ref list \<Rightarrow> store \<times> ref list" where
  "get_top_posts h posts = (let top_posts = take 6 posts in (assign_ranks h 1 top_posts, top_posts))"

section \<open>Notions for stating what the TOP POSTS loops compute\<close>

text \<open>The last element of a list that satisfies \<open>P\<close>.\<close>

fun find_last :: "('a \<Rightarrow> bool) \<Rightarrow> 'a list \<Rightarrow> 'a option" where
  "find_last P [] = None"
| "find_last P (x # xs) =
     (case find_last P xs of Some y \<Rightarrow> Some y | None \<Rightarrow> (if P x then Some x else None))"

text \<open>
  The rows from which each loop takes an entry: those before the loop's \<open>break\<close> that it
  does not skip.
\<close>

fun engagement_rows :: "worksheet \<Rightarrow> nat list \<Rightarrow> nat list" where
  "engagement_rows ws [] = []"
| "engagement_rows ws (r # rs) =
     (if cell ws r 1 = CNone \<and> cell ws r 2 = CNone \<and> cell ws r 3 = CNone then []
      else if cell ws r 1 = CNone \<or> cell ws r 2 = CNone then engagement_rows ws rs
      else r # engagement_rows ws rs)"

fun impression_rows :: "worksheet \<Rightarrow> nat list \<Rightarrow> nat list" where
  "impression_rows ws [] = []"
| "impression_rows ws (r # rs) =
     (if cell ws r 5 = CNone \<and> cell ws r 7 = CNone then []
      else if cell ws r 5 = CNone \<or> cell ws r 7 = CNone then impression_rows ws rs
      else r # impression_rows ws rs)"

text \<open>
  The count a loop stores for a cell. (Where \<open>float_or_zero\<close> raises, the loop has failed
  and stores nothing; \<open>count_of\<close> is only read for loops that did not fail.)
\<close>

definition count_of :: "cell_value \<Rightarrow> pyfloat" where
  "count_of v = (case float_or_zero v of Inr f \<Rightarrow> f | Inl e \<Rightarrow> Finite 0)"

definition engagement_entry :: "(pyfloat \<Rightarrow> string) \<Rightarrow> worksheet \<Rightarrow> nat \<Rightarrow> post" where
  "engagement_entry float_repr ws r =
     \<lparr>url = py_str float_repr (cell ws r 1),
      publish_date = py_str float_repr (cell ws r 2),
      engagements = count_of (cell ws r 3),
      impressions = Finite 0,
      rank = None\<rparr>"

definition impression_only_entry :: "string \<Rightarrow> post" where
  "impression_only_entry u =
     \<lparr>url = u, publish_date = [], engagements = Finite 0, impressions = Finite 0, rank = None\<rparr>"

text \<open>The last engagement row, and the last impression row, that name the URL \<open>u\<close>.\<close>

definition last_engagement_row :: "(pyfloat \<Rightarrow> string) \<Rightarrow> worksheet \<Rightarrow> string \<Rightarrow> nat option" where
  "last_engagement_row float_repr ws u =
     find_last (\<lambda>r. py_str float_repr (cell ws r 1) = u) (engagement_rows ws (data_rows ws))"

definition last_impression_row :: "(pyfloat \<Rightarrow> string) \<Rightarrow> worksheet \<Rightarrow> string \<Rightarrow> nat option" where
  "last_impression_row float_repr ws u =
     find_last (\<lambda>r. py_str float_repr (cell ws r 5) = u) (impression_rows ws (data_rows ws))"

text \<open>The elements of a list in the order in which each is first met.\<close>

definition first_seen :: "'a list \<Rightarrow> 'a list" where
  "first_seen xs = fold (\<lambda>k ks. if k \<in> set ks then ks else ks @ [k]) xs []"

text \<open>The URLs in the order the two loops meet them.\<close>

definition encounter_urls :: "(pyfloat \<Rightarrow> string) \<Rightarrow> worksheet \<Rightarrow> string list" where
  "encounter_urls float_repr ws =
     map (\<lambda>r. py_str float_repr (cell ws r 1)) (engagement_rows ws (data_rows ws))
     @ map (\<lambda>r. py_str float_repr (cell ws r 5)) (impression_rows ws (data_rows ws))"

text \<open>
  The two loops of the source composed in the other order, impressions first. The source
  never runs them so; a merge that does not depend on the scan order would have to give
  the same dictionary as \<open>merged_posts\<close>.
\<close>

definition merged_posts_impressions_first :: "(pyfloat \<Rightarrow> string) \<Rightarrow> worksheet \<Rightarrow> error + posts_dict" where
  "merged_posts_impressions_first float_repr ws =
     (case scan_impressions float_repr ws (data_rows ws) [] of
        Inl e \<Rightarrow> Inl e
      | Inr posts \<Rightarrow> scan_engagements float_repr ws (data_rows ws) posts)"

text \<open>
  The doubles, said directly: zero and the numbers \<open>m * 2 ^ e\<close> with an integer \<open>m\<close> of
  at most 53 bits and \<open>e\<close> no less than \<open>-1074\<close>, below \<open>2 ^ 1024\<close> in absolute value.
\<close>

definition double_value :: "rat \<Rightarrow> bool" where
  "double_value r =
     (\<exists>m e. r = of_int m * 2 powi e \<and> \<bar>m\<bar> < 2 ^ 53 \<and> - 1074 \<le> e \<and> \<bar>r\<bar> < 2 ^ 1024)"

text \<open>A float cell holds a double.\<close>

definition cell_ok :: "cell_value \<Rightarrow> bool" where
  "cell_ok v = (case v of CFloat (Finite q) \<Rightarrow> is_double q | _ \<Rightarrow> True)"

section \<open>Example inputs\<close>

text \<open>
  In the examples no float is turned into text, so the parameter \<open>float_repr\<close> is never
  applied; they pass \<open>unused_repr\<close> for it.
\<close>

definition unused_repr :: "pyfloat \<Rightarrow> string" where
  "unused_repr f = []"

definition example_cells :: "string \<rightharpoonup> cell_value" where
  "example_cells = [''Overall Performance'' \<mapsto> CStr ''11/11/2024 - 11/10/2025'',
                    ''Impressions'' \<mapsto> CFloat (Finite 857000),
                    ''Members reached'' \<mapsto> CStr ''297,771'']"

definition bad_cells :: "string \<rightharpoonup> cell_value" where
  "bad_cells = [''Overall Performance'' \<mapsto> CStr ''bad-format'',
                ''Impressions'' \<mapsto> CFloat (Finite 857000),
                ''Members reached'' \<mapsto> CStr ''297,771'']"

definition reversed_cells :: "string \<rightharpoonup> cell_value" where
  "reversed_cells = [''Overall Performance'' \<mapsto> CStr ''11/10/2025 - 11/11/2024'',
                     ''Impressions'' \<mapsto> CInt 0,
                     ''Members reached'' \<mapsto> CInt 0]"

text \<open>A worksheet given by its last row and the cells that are not empty.\<close>

definition sheet_of :: "nat \<Rightarrow> ((nat \<times> nat) \<times> cell_value) list \<Rightarrow> worksheet" where
  "sheet_of n tab = \<lparr>max_row = n, cell = (\<lambda>r c. case map_of tab (r, c) of Some v \<Rightarrow> v | None \<Rightarrow> CNone)\<rparr>"

text \<open>The spec's example: one post, in both views.\<close>

definition example_sheet :: worksheet where
  "example_sheet = sheet_of 4
     [((4, 1), CStr ''https://x/1''), ((4, 2), CStr ''2024-12-01''), ((4, 3), CFloat (Finite 12)),
      ((4, 5), CStr ''https://x/1''), ((4, 7), CFloat (Finite 500))]"

text \<open>A post whose counts are negative numbers in the sheet.\<close>

definition negative_sheet :: worksheet where
  "negative_sheet = sheet_of 4
     [((4, 1), CStr ''https://x/1''), ((4, 2), CStr ''2024-12-01''), ((4, 3), CFloat (Finite (- 5))),
      ((4, 5), CStr ''https://x/1''), ((4, 7), CFloat (Finite (- 3)))]"

text \<open>Two posts, the second with the text \<open>nan\<close> where its engagements should be.\<close>

definition nan_sheet :: worksheet where
  "nan_sheet = sheet_of 5
     [((4, 1), CStr ''https://x/1''), ((4, 2), CStr ''2024-12-01''), ((4, 3), CFloat (Finite 1)),
      ((5, 1), CStr ''https://x/2''), ((5, 2), CStr ''2024-12-02''), ((5, 3), CStr ''nan'')]"

text \<open>
  Three engagement rows, the first and the third for the same URL, and an impression row
  for a URL of its own.
\<close>

definition repeated_sheet :: worksheet where
  "repeated_sheet = sheet_of 6
     [((4, 1), CStr ''https://x/1''), ((4, 2), CStr ''2024-12-01''), ((4, 3), CFloat (Finite 10)),
      ((5, 1), CStr ''https://x/2''), ((5, 2), CStr ''2024-12-02''), ((5, 3), CFloat (Finite 40)),
      ((6, 1), CStr ''https://x/1''), ((6, 2), CStr ''2024-12-03''), ((6, 3), CFloat (Finite 40)),
      ((4, 5), CStr ''https://x/3''), ((4, 7), CFloat (Finite 7))]"

text \<open>
  Two posts, each in both views, the impression rows in the other order than the
  engagement rows; the impressions cell of the first post holds a text that is no number.
\<close>

definition crossed_sheet :: worksheet where
  "crossed_sheet = sheet_of 5
     [((4, 1), CStr ''https://x/1''), ((4, 2), CStr ''2024-12-01''), ((4, 3), CFloat (Finite 12)),
      ((5, 1), CStr ''https://x/2''), ((5, 2), CStr ''2024-12-02''), ((5, 3), CFloat (Finite 30)),
      ((4, 5), CStr ''https://x/2''), ((4, 7), CFloat (Finite 500)),
      ((5, 5), CStr ''https://x/1''), ((5, 7), CStr ''n/a'')]"

text \<open>
  A store with the spec's example at the references 0 to 3: four records with
  engagements 40, 40, 10 and 5, none ranked yet.
\<close>

definition ranked_example :: store where
  "ranked_example r =
     \<lparr>url = (if r = 0 then ''https://x/a'' else if r = 1 then ''https://x/b''
             else if r = 2 then ''https://x/c'' else ''https://x/d''),
      publish_date = ''2024-12-01'',
      engagements = Finite (if r = 0 then 40 else if r = 1 then 40 else if r = 2 then 10 else 5),
      impressions = Finite 0,
      rank = None\<rparr>"

section \<open>Properties of the DISCOVERY parser\<close>

lemmas strptime_eval =
  strptime_mdY_def month_token_def day_token_def is_digit_def digit_val_def digits_val_def
  make_date_def days_in_month_def is_leap_def

lemma round_double_0: "round_double 0 = Some 0"
  by (simp add: round_double_def)

lemma trunc_0: "trunc 0 = 0"
  by (simp add: trunc_def)

lemma parse_date_range_error_shape:
  "parse_date_range s = Inl e \<Longrightarrow> \<exists>c. e = DateRangeError s c"
  by (auto simp: parse_date_range_def Let_def split: if_splits sum.splits)

lemma parse_date_range_result:
  "parse_date_range s = Inr (a, b) \<Longrightarrow>
     \<exists>x y. py_split '' - '' [] (py_strip s) = [x, y]
          \<and> strptime_mdY (py_strip x) = Inr a \<and> strptime_mdY (py_strip y) = Inr b"
  apply (auto simp: parse_date_range_def Let_def split: if_splits sum.splits)
  apply (cases "py_split '' - '' [] (py_strip s)"; simp)
  subgoal for h t by (cases t; simp)
  done

lemma extract_body_errors:
  "extract_body repr cells = Inl e \<Longrightarrow>
     (\<exists>k. e = KeyError k) \<or> (\<exists>s c. e = DateRangeError s c)
     \<or> (\<exists>v x. e = IntegerValueError v x) \<or> e = OverflowError"
  by (auto simp: extract_body_def getitem_def parse_integer_value_def Let_def
      dest!: parse_date_range_error_shape
      split: option.splits sum.splits prod.splits py_exc.splits)

lemma extract_not_missing:
  "required_fields \<subseteq> dom cells \<Longrightarrow> extract_discovery_data repr cells \<noteq> Inl (MissingFields S)"
  by (auto simp: extract_discovery_data_def dest!: extract_body_errors split: sum.splits)

lemma extract_date_error:
  assumes "cells ''Overall Performance'' = Some v" "required_fields \<subseteq> dom cells"
    and "parse_date_range (py_str repr v) = Inl e"
  shows "extract_discovery_data repr cells = Inl (ExtractError e)"
proof -
  from assms(3) obtain c where "e = DateRangeError (py_str repr v) c"
    using parse_date_range_error_shape by blast
  then show ?thesis
    using assms by (simp add: extract_discovery_data_def extract_body_def getitem_def)
qed

lemma reversed_cells_result:
  "extract_discovery_data unused_repr reversed_cells =
     Inr \<lparr>start_date = \<lparr>year = 2025, month = 11, day = 10\<rparr>,
          end_date = \<lparr>year = 2024, month = 11, day = 11\<rparr>,
          total_impressions = 0, members_reached = 0\<rparr>"
proof -
  have p: "parse_date_range ''11/10/2025 - 11/11/2024'' =
     Inr (\<lparr>year = 2025, month = 11, day = 10\<rparr>, \<lparr>year = 2024, month = 11, day = 11\<rparr>)"
    by (simp add: parse_date_range_def py_strip_def is_space_def strptime_eval)
  have r: "required_fields \<subseteq> dom reversed_cells"
    by (simp add: reversed_cells_def required_fields_def)
  have i: "parse_integer_value (CInt 0) = Inr 0"
    by (simp add: parse_integer_value_def py_float_def py_int_def round_double_0 trunc_0)
  show ?thesis
    using r by (simp add: extract_discovery_data_def extract_body_def getitem_def reversed_cells_def
        py_str_def p i)
qed

text \<open>
  C2, as the code has it: the parser neither compares nor swaps the two dates. For every
  mapping it accepts, the range text splits into exactly two segments and
  \<open>start_date\<close> is the date written in the first, \<open>end_date\<close> the date written in
  the second.
\<close>

theorem dates_as_written:
  "extract_discovery_data repr cells = Inr d \<longrightarrow>
     (\<exists>v x y. cells ''Overall Performance'' = Some v
        \<and> py_split '' - '' [] (py_strip (py_str repr v)) = [x, y]
        \<and> strptime_mdY (py_strip x) = Inr (start_date d)
        \<and> strptime_mdY (py_strip y) = Inr (end_date d))"
proof
  assume a: "extract_discovery_data repr cells = Inr d"
  then obtain v where v: "cells ''Overall Performance'' = Some v"
    and p: "parse_date_range (py_str repr v) = Inr (start_date d, end_date d)"
    by (auto simp: extract_discovery_data_def extract_body_def getitem_def
        split: if_splits option.splits sum.splits prod.splits)
  from parse_date_range_result [OF p] v
  show "\<exists>v x y. cells ''Overall Performance'' = Some v
        \<and> py_split '' - '' [] (py_strip (py_str repr v)) = [x, y]
        \<and> strptime_mdY (py_strip x) = Inr (start_date d)
        \<and> strptime_mdY (py_strip y) = Inr (end_date d)"
    by blast
qed

theorem dates_as_written_witness:
  "extract_discovery_data unused_repr reversed_cells =
     Inr \<lparr>start_date = \<lparr>year = 2025, month = 11, day = 10\<rparr>,
          end_date = \<lparr>year = 2024, month = 11, day = 11\<rparr>,
          total_impressions = 0, members_reached = 0\<rparr>
   \<and> (\<exists>v x y. reversed_cells ''Overall Performance'' = Some v
        \<and> py_split '' - '' [] (py_strip (py_str unused_repr v)) = [x, y]
        \<and> strptime_mdY (py_strip x) = Inr \<lparr>year = 2025, month = 11, day = 10\<rparr>
        \<and> strptime_mdY (py_strip y) = Inr \<lparr>year = 2024, month = 11, day = 11\<rparr>)"
  using dates_as_written [of unused_repr reversed_cells
      "\<lparr>start_date = \<lparr>year = 2025, month = 11, day = 10\<rparr>,
        end_date = \<lparr>year = 2024, month = 11, day = 11\<rparr>,
        total_impressions = 0, members_reached = 0\<rparr>"]
    reversed_cells_result
  by simp

text \<open>
  C2 as stated fails: a range written with the later date first is accepted, and the
  summary returned has \<open>start_date\<close> after \<open>end_date\<close>.
\<close>

theorem date_order_counterexample:
  "extract_discovery_data unused_repr reversed_cells =
     Inr \<lparr>start_date = \<lparr>year = 2025, month = 11, day = 10\<rparr>,
          end_date = \<lparr>year = 2024, month = 11, day = 11\<rparr>,
          total_impressions = 0, members_reached = 0\<rparr>
   \<and> \<not> date_le \<lparr>year = 2025, month = 11, day = 10\<rparr> \<lparr>year = 2024, month = 11, day = 11\<rparr>"
  using reversed_cells_result by (simp add: date_le_def)

text \<open>
  C5: \<open>extract_discovery_data\<close> fails with the missing-fields error exactly when one of
  the three labels is not a key of the mapping; the error then carries exactly the
  required labels that are not keys, at least one. A label whose value is \<open>None\<close> is a
  key, so it is never among them, and a mapping holding all three labels never gives this
  error.
\<close>

theorem missing_field_error:
  "((\<exists>S. extract_discovery_data repr cells = Inl (MissingFields S)) \<longleftrightarrow> \<not> required_fields \<subseteq> dom cells)
   \<and> (\<forall>S. extract_discovery_data repr cells = Inl (MissingFields S) \<longrightarrow>
          S = required_fields - dom cells \<and> S \<noteq> {}
          \<and> (\<forall>k. k \<in> S \<longleftrightarrow> k \<in> required_fields \<and> cells k = None))
   \<and> (\<forall>k. cells k = Some CNone \<longrightarrow> k \<notin> required_fields - dom cells)
   \<and> (required_fields \<subseteq> dom cells \<longrightarrow> (\<forall>S. extract_discovery_data repr cells \<noteq> Inl (MissingFields S)))"
proof (intro conjI allI impI)
  show "(\<exists>S. extract_discovery_data repr cells = Inl (MissingFields S)) \<longleftrightarrow> \<not> required_fields \<subseteq> dom cells"
  proof
    assume "\<exists>S. extract_discovery_data repr cells = Inl (MissingFields S)"
    then show "\<not> required_fields \<subseteq> dom cells"
      using extract_not_missing by blast
  next
    assume "\<not> required_fields \<subseteq> dom cells"
    then show "\<exists>S. extract_discovery_data repr cells = Inl (MissingFields S)"
      by (simp add: extract_discovery_data_def)
  qed
next
  fix S assume a: "extract_discovery_data repr cells = Inl (MissingFields S)"
  then have n: "\<not> required_fields \<subseteq> dom cells"
    using extract_not_missing by blast
  with a show s: "S = required_fields - dom cells"
    by (simp add: extract_discovery_data_def)
  from n s show "S \<noteq> {}"
    by auto
  fix k
  from s show "k \<in> S \<longleftrightarrow> k \<in> required_fields \<and> cells k = None"
    by (auto simp: dom_def)
next
  fix k assume "cells k = Some CNone"
  then show "k \<notin> required_fields - dom cells"
    by (simp add: dom_def)
next
  fix S assume "required_fields \<subseteq> dom cells"
  then show "extract_discovery_data repr cells \<noteq> Inl (MissingFields S)"
    by (rule extract_not_missing)
qed

theorem missing_field_error_witness:
  "\<not> required_fields \<subseteq> dom [''Impressions'' \<mapsto> CNone]
   \<and> extract_discovery_data unused_repr [''Impressions'' \<mapsto> CNone]
        = Inl (MissingFields {''Overall Performance'', ''Members reached''})
   \<and> ''Impressions'' \<notin> required_fields - dom [''Impressions'' \<mapsto> CNone]
   \<and> required_fields \<subseteq> dom (example_cells(''Impressions'' \<mapsto> CNone))
   \<and> extract_discovery_data unused_repr (example_cells(''Impressions'' \<mapsto> CNone))
        = Inl (ExtractError (IntegerValueError CNone TypeErr))
   \<and> (\<forall>S. extract_discovery_data unused_repr (example_cells(''Impressions'' \<mapsto> CNone))
        \<noteq> Inl (MissingFields S))"
proof -
  let ?c = "[''Impressions'' \<mapsto> CNone] :: string \<rightharpoonup> cell_value"
  let ?d = "example_cells(''Impressions'' \<mapsto> CNone)"
  have 0: "\<not> required_fields \<subseteq> dom ?c"
    by (simp add: required_fields_def)
  have 1: "extract_discovery_data unused_repr ?c
            = Inl (MissingFields {''Overall Performance'', ''Members reached''})"
    by (auto simp: extract_discovery_data_def required_fields_def)
  have 2: "''Impressions'' \<notin> required_fields - dom ?c"
    using missing_field_error [of unused_repr ?c] by simp
  have 3: "required_fields \<subseteq> dom ?d"
    by (simp add: required_fields_def example_cells_def)
  have 4: "parse_date_range ''11/11/2024 - 11/10/2025'' =
      Inr (\<lparr>year = 2024, month = 11, day = 11\<rparr>, \<lparr>year = 2025, month = 11, day = 10\<rparr>)"
    by (simp add: parse_date_range_def py_strip_def is_space_def strptime_eval)
  have 5: "extract_discovery_data unused_repr ?d = Inl (ExtractError (IntegerValueError CNone TypeErr))"
    using 3 by (simp add: extract_discovery_data_def extract_body_def getitem_def example_cells_def
        py_str_def 4 parse_integer_value_def py_float_def)
  have 6: "\<forall>S. extract_discovery_data unused_repr ?d \<noteq> Inl (MissingFields S)"
    using missing_field_error [of unused_repr ?d] 3 by blast
  from 0 1 2 3 5 6 show ?thesis by blast
qed

text \<open>
  C6: the range text is stripped and split on \<open>" - "\<close>. \<open>parse_date_range\<close> fails
  exactly when the split does not give two segments or one of the two (stripped) segments
  is not read by \<open>strptime\<close> under \<open>%m/%d/%Y\<close>. The error is a ValueError that carries the
  text it was given and the cause: the text again when the segments are not two, else
  what \<open>strptime\<close> reported for the first segment it refused. \<open>"bad-format"\<close> fails this
  way, and \<open>extract_discovery_data\<close> passes such an error on, wrapped, still a ValueError.
\<close>

theorem date_range_format_error:
  "(let segs = py_split '' - '' [] (py_strip s) in
      (parse_date_range s = Inl (DateRangeError s (ExpectedFormat s)) \<longleftrightarrow> length segs \<noteq> 2)
    \<and> ((\<exists>e. parse_date_range s = Inl e) \<longleftrightarrow>
           length segs \<noteq> 2 \<or> isl (strptime_mdY (py_strip (segs ! 0)))
           \<or> isl (strptime_mdY (py_strip (segs ! 1))))
    \<and> (\<forall>x. length segs = 2 \<and> strptime_mdY (py_strip (segs ! 0)) = Inl x \<longrightarrow>
           parse_date_range s = Inl (DateRangeError s (Strptime x)))
    \<and> (\<forall>x. length segs = 2 \<and> \<not> isl (strptime_mdY (py_strip (segs ! 0)))
            \<and> strptime_mdY (py_strip (segs ! 1)) = Inl x \<longrightarrow>
           parse_date_range s = Inl (DateRangeError s (Strptime x))))
   \<and> (\<forall>e. parse_date_range s = Inl e \<longrightarrow> class_of e = ValueError_class \<and> (\<exists>c. e = DateRangeError s c))
   \<and> parse_date_range ''bad-format'' = Inl (DateRangeError ''bad-format'' (ExpectedFormat ''bad-format''))
   \<and> (\<forall>e. cells ''Overall Performance'' = Some v \<and> required_fields \<subseteq> dom cells
            \<and> parse_date_range (py_str repr v) = Inl e \<longrightarrow>
          extract_discovery_data repr cells = Inl (ExtractError e)
          \<and> class_of (ExtractError e) = ValueError_class)"
proof -
  have a: "parse_date_range ''bad-format'' = Inl (DateRangeError ''bad-format'' (ExpectedFormat ''bad-format''))"
    by (simp add: parse_date_range_def py_strip_def is_space_def)
  have b: "\<forall>e. parse_date_range s = Inl e \<longrightarrow> class_of e = ValueError_class \<and> (\<exists>c. e = DateRangeError s c)"
    using parse_date_range_error_shape by fastforce
  have c: "\<forall>e. cells ''Overall Performance'' = Some v \<and> required_fields \<subseteq> dom cells
            \<and> parse_date_range (py_str repr v) = Inl e \<longrightarrow>
          extract_discovery_data repr cells = Inl (ExtractError e)
          \<and> class_of (ExtractError e) = ValueError_class"
    using extract_date_error by simp
  have d: "(let segs = py_split '' - '' [] (py_strip s) in
      (parse_date_range s = Inl (DateRangeError s (ExpectedFormat s)) \<longleftrightarrow> length segs \<noteq> 2)
    \<and> ((\<exists>e. parse_date_range s = Inl e) \<longleftrightarrow>
           length segs \<noteq> 2 \<or> isl (strptime_mdY (py_strip (segs ! 0)))
           \<or> isl (strptime_mdY (py_strip (segs ! 1))))
    \<and> (\<forall>x. length segs = 2 \<and> strptime_mdY (py_strip (segs ! 0)) = Inl x \<longrightarrow>
           parse_date_range s = Inl (DateRangeError s (Strptime x)))
    \<and> (\<forall>x. length segs = 2 \<and> \<not> isl (strptime_mdY (py_strip (segs ! 0)))
            \<and> strptime_mdY (py_strip (segs ! 1)) = Inl x \<longrightarrow>
           parse_date_range s = Inl (DateRangeError s (Strptime x))))"
    by (auto simp: parse_date_range_def Let_def split: sum.splits)
  from a b c d show ?thesis by blast
qed

theorem date_range_format_error_witness:
  "length (py_split '' - '' [] (py_strip ''11/11/2024 - 13/40/2025'')) = 2
   \<and> \<not> isl (strptime_mdY (py_strip (py_split '' - '' [] (py_strip ''11/11/2024 - 13/40/2025'') ! 0)))
   \<and> strptime_mdY (py_strip (py_split '' - '' [] (py_strip ''11/11/2024 - 13/40/2025'') ! 1))
       = Inl (TimeDataMismatch ''13/40/2025'')
   \<and> parse_date_range ''11/11/2024 - 13/40/2025''
       = Inl (DateRangeError ''11/11/2024 - 13/40/2025'' (Strptime (TimeDataMismatch ''13/40/2025'')))
   \<and> bad_cells ''Overall Performance'' = Some (CStr ''bad-format'')
   \<and> required_fields \<subseteq> dom bad_cells
   \<and> extract_discovery_data unused_repr bad_cells
       = Inl (ExtractError (DateRangeError ''bad-format'' (ExpectedFormat ''bad-format'')))"
proof -
  let ?s = "''11/11/2024 - 13/40/2025''"
  have segs: "py_split '' - '' [] (py_strip ?s) = [''11/11/2024'', ''13/40/2025'']"
    by (simp add: py_strip_def is_space_def)
  have s0: "\<not> isl (strptime_mdY (py_strip ''11/11/2024''))"
    by (simp add: py_strip_def is_space_def strptime_eval)
  have s1: "strptime_mdY (py_strip ''13/40/2025'') = Inl (TimeDataMismatch ''13/40/2025'')"
    by (simp add: py_strip_def is_space_def strptime_eval)
  have p: "parse_date_range ?s = Inl (DateRangeError ?s (Strptime (TimeDataMismatch ''13/40/2025'')))"
    using date_range_format_error [of ?s] segs s0 s1 by (simp add: Let_def)
  have k: "bad_cells ''Overall Performance'' = Some (CStr ''bad-format'')"
    by (simp add: bad_cells_def)
  have r: "required_fields \<subseteq> dom bad_cells"
    by (simp add: bad_cells_def required_fields_def)
  have "parse_date_range (py_str unused_repr (CStr ''bad-format''))
          = Inl (DateRangeError ''bad-format'' (ExpectedFormat ''bad-format''))"
    using date_range_format_error [of "''bad-format''"] by (simp add: py_str_def)
  with date_range_format_error [of _ bad_cells "CStr ''bad-format''" unused_repr] k r
  have x: "extract_discovery_data unused_repr bad_cells
       = Inl (ExtractError (DateRangeError ''bad-format'' (ExpectedFormat ''bad-format'')))"
    by blast
  show ?thesis using segs s0 s1 p k r x by simp
qed

section \<open>Properties of the TOP POSTS parser\<close>

lemma float_or_zero_cases:
  "float_or_zero v = Inr f \<Longrightarrow> f = Finite 0 \<or> py_float v = Inr f"
  by (auto simp: float_or_zero_def split: if_splits sum.splits py_exc.splits)

lemma float_or_zero_error:
  "float_or_zero v = Inl e \<Longrightarrow> e = OverflowError"
  by (auto simp: float_or_zero_def split: if_splits sum.splits py_exc.splits)

lemma count_of_cases: "count_of v = Finite 0 \<or> py_float v = Inr (count_of v)"
  by (auto simp: count_of_def dest: float_or_zero_cases split: sum.splits)

lemma count_of_Inr: "float_or_zero v = Inr f \<Longrightarrow> count_of v = f"
  by (simp add: count_of_def)

lemma scan_engagements_lookup:
  "scan_engagements repr ws rows posts = Inr posts' \<Longrightarrow>
   map_of posts' u =
     (case find_last (\<lambda>r. py_str repr (cell ws r 1) = u) (engagement_rows ws rows) of
        Some r \<Rightarrow> Some (engagement_entry repr ws r)
      | None \<Rightarrow> map_of posts u)"
proof (induction rows arbitrary: posts)
  case Nil
  then show ?case by simp
next
  case (Cons r rows)
  show ?case
  proof (cases "cell ws r 1 = CNone \<and> cell ws r 2 = CNone \<and> cell ws r 3 = CNone")
    case True
    with Cons.prems show ?thesis by simp
  next
    case stop: False
    show ?thesis
    proof (cases "cell ws r 1 = CNone \<or> cell ws r 2 = CNone")
      case True
      with stop Cons.prems have "scan_engagements repr ws rows posts = Inr posts'"
        by auto
      from Cons.IH [OF this] stop True show ?thesis by auto
    next
      case False
      with stop Cons.prems obtain c where c: "float_or_zero (cell ws r 3) = Inr c"
        and s: "scan_engagements repr ws rows
                 (AList.update (py_str repr (cell ws r 1))
                    \<lparr>url = py_str repr (cell ws r 1), publish_date = py_str repr (cell ws r 2),
                     engagements = c, impressions = Finite 0, rank = None\<rparr> posts) = Inr posts'"
        by (auto split: sum.splits)
      have e: "engagement_entry repr ws r =
                 \<lparr>url = py_str repr (cell ws r 1), publish_date = py_str repr (cell ws r 2),
                  engagements = c, impressions = Finite 0, rank = None\<rparr>"
        by (simp add: engagement_entry_def count_of_Inr [OF c])
      from Cons.IH [OF s] stop False e show ?thesis
        by (auto simp: update_conv' split: option.splits)
    qed
  qed
qed

lemma scan_impressions_lookup:
  "scan_impressions repr ws rows posts = Inr posts' \<Longrightarrow>
   map_of posts' u =
     (case find_last (\<lambda>r. py_str repr (cell ws r 5) = u) (impression_rows ws rows) of
        Some i \<Rightarrow>
          Some ((case map_of posts u of Some p \<Rightarrow> p | None \<Rightarrow> impression_only_entry u)
                 \<lparr>impressions := count_of (cell ws i 7)\<rparr>)
      | None \<Rightarrow> map_of posts u)"
proof (induction rows arbitrary: posts)
  case Nil
  then show ?case by simp
next
  case (Cons r rows)
  show ?case
  proof (cases "cell ws r 5 = CNone \<and> cell ws r 7 = CNone")
    case True
    with Cons.prems show ?thesis by simp
  next
    case stop: False
    show ?thesis
    proof (cases "cell ws r 5 = CNone \<or> cell ws r 7 = CNone")
      case True
      with stop Cons.prems have "scan_impressions repr ws rows posts = Inr posts'"
        by auto
      from Cons.IH [OF this] stop True show ?thesis by auto
    next
      case False
      let ?k = "py_str repr (cell ws r 5)"
      let ?base = "case map_of posts ?k of Some p \<Rightarrow> p | None \<Rightarrow> impression_only_entry ?k"
      from False stop Cons.prems obtain c where c: "float_or_zero (cell ws r 7) = Inr c"
        and s: "scan_impressions repr ws rows
                 (AList.update ?k (?base\<lparr>impressions := c\<rparr>) posts) = Inr posts'"
        by (auto simp: impression_only_entry_def split: sum.splits option.splits)
      from Cons.IH [OF s] stop False count_of_Inr [OF c] show ?thesis
        by (auto simp: update_conv' split: option.splits)
    qed
  qed
qed

lemma merged_posts_lookup:
  assumes "merged_posts repr ws = Inr posts"
  shows "map_of posts u =
     (case last_engagement_row repr ws u of
        Some r \<Rightarrow>
          Some ((engagement_entry repr ws r)
                 \<lparr>impressions := (case last_impression_row repr ws u of
                                     Some i \<Rightarrow> count_of (cell ws i 7) | None \<Rightarrow> Finite 0)\<rparr>)
      | None \<Rightarrow>
          (case last_impression_row repr ws u of
             Some i \<Rightarrow> Some ((impression_only_entry u)\<lparr>impressions := count_of (cell ws i 7)\<rparr>)
           | None \<Rightarrow> None))"
proof -
  from assms obtain p0 where e: "scan_engagements repr ws (data_rows ws) [] = Inr p0"
    and i: "scan_impressions repr ws (data_rows ws) p0 = Inr posts"
    by (auto simp: merged_posts_def split: sum.splits)
  show ?thesis
    using scan_engagements_lookup [OF e, of u] scan_impressions_lookup [OF i, of u]
    by (auto simp: last_engagement_row_def last_impression_row_def engagement_entry_def
        split: option.splits)
qed

lemma find_last_Some: "find_last P xs = Some r \<Longrightarrow> P r \<and> r \<in> set xs"
  by (induction xs) (auto split: option.splits if_splits)

lemma engagement_rows_subset: "set (engagement_rows ws rows) \<subseteq> set rows"
  by (induction rows) auto

lemma impression_rows_subset: "set (impression_rows ws rows) \<subseteq> set rows"
  by (induction rows) auto

lemma scan_engagements_keys:
  "scan_engagements repr ws rows posts = Inr posts' \<Longrightarrow>
   map fst posts' =
     fold (\<lambda>k ks. if k \<in> set ks then ks else ks @ [k])
       (map (\<lambda>r. py_str repr (cell ws r 1)) (engagement_rows ws rows)) (map fst posts)"
proof (induction rows arbitrary: posts)
  case Nil
  then show ?case by simp
next
  case (Cons r rows)
  show ?case
  proof (cases "cell ws r 1 = CNone \<and> cell ws r 2 = CNone \<and> cell ws r 3 = CNone")
    case True
    with Cons.prems show ?thesis by simp
  next
    case stop: False
    show ?thesis
    proof (cases "cell ws r 1 = CNone \<or> cell ws r 2 = CNone")
      case True
      with stop Cons.prems have "scan_engagements repr ws rows posts = Inr posts'"
        by auto
      from Cons.IH [OF this] stop True show ?thesis by auto
    next
      case False
      with stop Cons.prems obtain e where
        s: "scan_engagements repr ws rows (AList.update (py_str repr (cell ws r 1)) e posts) = Inr posts'"
        by (auto split: sum.splits)
      from Cons.IH [OF s] stop False show ?thesis
        by (simp add: update_keys)
    qed
  qed
qed

lemma scan_impressions_keys:
  "scan_impressions repr ws rows posts = Inr posts' \<Longrightarrow>
   map fst posts' =
     fold (\<lambda>k ks. if k \<in> set ks then ks else ks @ [k])
       (map (\<lambda>r. py_str repr (cell ws r 5)) (impression_rows ws rows)) (map fst posts)"
proof (induction rows arbitrary: posts)
  case Nil
  then show ?case by simp
next
  case (Cons r rows)
  show ?case
  proof (cases "cell ws r 5 = CNone \<and> cell ws r 7 = CNone")
    case True
    with Cons.prems show ?thesis by simp
  next
    case stop: False
    show ?thesis
    proof (cases "cell ws r 5 = CNone \<or> cell ws r 7 = CNone")
      case True
      with stop Cons.prems have "scan_impressions repr ws rows posts = Inr posts'"
        by auto
      from Cons.IH [OF this] stop True show ?thesis by auto
    next
      case False
      with stop Cons.prems obtain e where
        s: "scan_impressions repr ws rows (AList.update (py_str repr (cell ws r 5)) e posts) = Inr posts'"
        by (auto split: sum.splits option.splits)
      from Cons.IH [OF s] stop False show ?thesis
        by (simp add: update_keys)
    qed
  qed
qed

lemma merged_posts_keys:
  assumes "merged_posts repr ws = Inr posts"
  shows "map fst posts = first_seen (encounter_urls repr ws)"
proof -
  from assms obtain p0 where e: "scan_engagements repr ws (data_rows ws) [] = Inr p0"
    and i: "scan_impressions repr ws (data_rows ws) p0 = Inr posts"
    by (auto simp: merged_posts_def split: sum.splits)
  show ?thesis
    using scan_engagements_keys [OF e] scan_impressions_keys [OF i]
    by (simp add: first_seen_def encounter_urls_def)
qed

lemma distinct_add_key:
  "distinct ks \<Longrightarrow> distinct (fold (\<lambda>k ks. if k \<in> set ks then ks else ks @ [k]) xs ks)"
  by (induction xs arbitrary: ks) auto

lemma distinct_first_seen: "distinct (first_seen xs)"
  by (simp add: first_seen_def distinct_add_key)

lemma merged_posts_distinct:
  "merged_posts repr ws = Inr posts \<Longrightarrow> distinct (map fst posts)"
  by (simp add: merged_posts_keys distinct_first_seen)

lemma merged_posts_url:
  assumes "merged_posts repr ws = Inr posts" and "(k, p) \<in> set posts"
  shows "url p = k"
proof -
  from assms have "map_of posts k = Some p"
    by (simp add: merged_posts_distinct)
  with merged_posts_lookup [OF assms(1), of k] show ?thesis
    by (auto simp: last_engagement_row_def engagement_entry_def impression_only_entry_def
        dest: find_last_Some split: option.splits)
qed

lemma merged_posts_urls:
  assumes "merged_posts repr ws = Inr posts"
  shows "map url (map snd posts) = map fst posts"
  using merged_posts_url [OF assms] by (auto intro!: map_cong simp del: map_map simp add: comp_def list.map_comp)

subsection \<open>The sort\<close>

lemma set_insert_desc: "set (insert_desc p qs) = insert p (set qs)"
  by (induction qs) auto

lemma set_sort_desc: "set (sort_by_engagements_desc ps) = set ps"
  by (induction ps) (auto simp: sort_by_engagements_desc_def set_insert_desc)

lemma length_insert_desc: "length (insert_desc p qs) = Suc (length qs)"
  by (induction qs) auto

lemma length_sort_desc: "length (sort_by_engagements_desc ps) = length ps"
  by (induction ps) (auto simp: sort_by_engagements_desc_def length_insert_desc)

lemma distinct_insert_desc:
  "distinct (map f (insert_desc p qs)) \<longleftrightarrow> f p \<notin> f ` set qs \<and> distinct (map f qs)"
  by (induction qs) (auto simp: set_insert_desc)

lemma distinct_sort_desc:
  "distinct (map f (sort_by_engagements_desc ps)) \<longleftrightarrow> distinct (map f ps)"
  by (induction ps) (auto simp: sort_by_engagements_desc_def distinct_insert_desc set_sort_desc [unfolded sort_by_engagements_desc_def])

lemma py_lt_irrefl: "\<not> py_lt a a"
  by (cases a) auto

lemma filter_insert_desc:
  "filter (\<lambda>x. engagements x = c) (insert_desc p qs) =
     (if engagements p = c then p # filter (\<lambda>x. engagements x = c) qs
      else filter (\<lambda>x. engagements x = c) qs)"
  by (induction qs) (auto simp: py_lt_irrefl)

lemma filter_sort_desc:
  "filter (\<lambda>x. engagements x = c) (sort_by_engagements_desc ps) = filter (\<lambda>x. engagements x = c) ps"
  by (induction ps) (auto simp: sort_by_engagements_desc_def filter_insert_desc)

lemma py_ge_total: "a \<noteq> NaN \<Longrightarrow> b \<noteq> NaN \<Longrightarrow> py_lt a b \<Longrightarrow> py_ge b a"
  by (cases a; cases b) (auto simp: py_ge_def)

lemma py_ge_not_lt: "a \<noteq> NaN \<Longrightarrow> b \<noteq> NaN \<Longrightarrow> \<not> py_lt a b \<Longrightarrow> py_ge a b"
  by (simp add: py_ge_def)

lemma py_ge_trans: "py_ge a b \<Longrightarrow> py_ge b c \<Longrightarrow> py_ge a c"
  by (cases a; cases b; cases c) (auto simp: py_ge_def)

lemma sorted_insert_desc:
  assumes "sorted_wrt (\<lambda>a b. py_ge (engagements a) (engagements b)) qs"
    and "engagements p \<noteq> NaN" and "\<forall>q \<in> set qs. engagements q \<noteq> NaN"
  shows "sorted_wrt (\<lambda>a b. py_ge (engagements a) (engagements b)) (insert_desc p qs)"
  using assms
proof (induction qs)
  case Nil
  then show ?case by simp
next
  case (Cons q qs)
  show ?case
  proof (cases "py_lt (engagements p) (engagements q)")
    case True
    with Cons show ?thesis
      by (auto simp: set_insert_desc py_ge_total)
  next
    case False
    with Cons.prems have pq: "py_ge (engagements p) (engagements q)"
      by (simp add: py_ge_not_lt)
    with Cons.prems have "\<forall>x \<in> set qs. py_ge (engagements p) (engagements x)"
      by (auto intro: py_ge_trans)
    with False pq Cons.prems show ?thesis by simp
  qed
qed

lemma sorted_sort_desc:
  "\<forall>p \<in> set ps. engagements p \<noteq> NaN \<Longrightarrow>
   sorted_wrt (\<lambda>a b. py_ge (engagements a) (engagements b)) (sort_by_engagements_desc ps)"
proof (induction ps)
  case Nil
  then show ?case by (simp add: sort_by_engagements_desc_def)
next
  case (Cons p ps)
  then have "sorted_wrt (\<lambda>a b. py_ge (engagements a) (engagements b)) (foldr insert_desc ps [])"
    by (simp add: sort_by_engagements_desc_def)
  moreover have "\<forall>q \<in> set (foldr insert_desc ps []). engagements q \<noteq> NaN"
    using Cons.prems set_sort_desc [of ps] by (simp add: sort_by_engagements_desc_def)
  ultimately show ?case
    using Cons.prems by (simp add: sort_by_engagements_desc_def sorted_insert_desc)
qed

lemma data_rows_sheet_4: "data_rows (sheet_of 4 tab) = [4]"
  by (simp add: sheet_of_def data_rows_def upt_rec)

lemma data_rows_sheet_5: "data_rows (sheet_of 5 tab) = [4, 5]"
  by (simp add: sheet_of_def data_rows_def upt_rec)

lemma data_rows_sheet_6: "data_rows (sheet_of 6 tab) = [4, 5, 6]"
  by (simp add: sheet_of_def data_rows_def upt_rec)

lemma cell_sheet_of: "cell (sheet_of n tab) r c = (case map_of tab (r, c) of Some v \<Rightarrow> v | None \<Rightarrow> CNone)"
  by (simp add: sheet_of_def)

lemmas sheet_eval = cell_sheet_of float_or_zero_def truthy_def py_float_def py_str_def

lemma example_sheet_merged:
  "merged_posts unused_repr example_sheet =
     Inr [(''https://x/1'',
           \<lparr>url = ''https://x/1'', publish_date = ''2024-12-01'',
            engagements = Finite 12, impressions = Finite 500, rank = None\<rparr>)]"
  by (simp add: merged_posts_def example_sheet_def data_rows_sheet_4 sheet_eval)

lemma example_sheet_reversed:
  "merged_posts_impressions_first unused_repr example_sheet =
     Inr [(''https://x/1'',
           \<lparr>url = ''https://x/1'', publish_date = ''2024-12-01'',
            engagements = Finite 12, impressions = Finite 0, rank = None\<rparr>)]"
  by (simp add: merged_posts_impressions_first_def example_sheet_def data_rows_sheet_4 sheet_eval)

lemma negative_sheet_merged:
  "merged_posts unused_repr negative_sheet =
     Inr [(''https://x/1'',
           \<lparr>url = ''https://x/1'', publish_date = ''2024-12-01'',
            engagements = Finite (- 5), impressions = Finite (- 3), rank = None\<rparr>)]"
  by (simp add: merged_posts_def negative_sheet_def data_rows_sheet_4 sheet_eval)

lemma py_float_str_nan: "py_float_str ''nan'' = Some NaN"
  by (simp add: py_float_str_def float_strip_def is_c_space_def py_strip_def is_space_def ascii_lower_def)

lemma nan_sheet_merged:
  "merged_posts unused_repr nan_sheet =
     Inr [(''https://x/1'',
           \<lparr>url = ''https://x/1'', publish_date = ''2024-12-01'',
            engagements = Finite 1, impressions = Finite 0, rank = None\<rparr>),
          (''https://x/2'',
           \<lparr>url = ''https://x/2'', publish_date = ''2024-12-02'',
            engagements = NaN, impressions = Finite 0, rank = None\<rparr>)]"
  by (simp add: merged_posts_def nan_sheet_def data_rows_sheet_5 sheet_eval py_float_str_nan)

lemma repeated_sheet_merged:
  "merged_posts unused_repr repeated_sheet =
     Inr [(''https://x/1'',
           \<lparr>url = ''https://x/1'', publish_date = ''2024-12-03'',
            engagements = Finite 40, impressions = Finite 0, rank = None\<rparr>),
          (''https://x/2'',
           \<lparr>url = ''https://x/2'', publish_date = ''2024-12-02'',
            engagements = Finite 40, impressions = Finite 0, rank = None\<rparr>),
          (''https://x/3'',
           \<lparr>url = ''https://x/3'', publish_date = [],
            engagements = Finite 0, impressions = Finite 7, rank = None\<rparr>)]"
  by (simp add: merged_posts_def repeated_sheet_def data_rows_sheet_6 sheet_eval)

lemma parse_top_posts_sheet_Inr:
  assumes "parse_top_posts_sheet repr wb = Inr ps" and "wb ''TOP POSTS'' = Some ws"
  obtains posts where "merged_posts repr ws = Inr posts"
    and "ps = sort_by_engagements_desc (map snd posts)"
  using assms by (auto simp: parse_top_posts_sheet_def split: sum.splits)

lemma merged_posts_member:
  assumes "merged_posts repr ws = Inr posts" and "p \<in> set (map snd posts)"
  shows "map_of posts (url p) = Some p"
proof -
  from assms(2) obtain k where k: "(k, p) \<in> set posts" by auto
  with merged_posts_url [OF assms(1)] have "url p = k" by simp
  with k merged_posts_distinct [OF assms(1)] show ?thesis by simp
qed

lemma merged_posts_fields:
  assumes "merged_posts repr ws = Inr posts" and "p \<in> set (map snd posts)"
  shows "engagements p =
           (case last_engagement_row repr ws (url p) of
              Some r \<Rightarrow> count_of (cell ws r 3) | None \<Rightarrow> Finite 0)"
    and "impressions p =
           (case last_impression_row repr ws (url p) of
              Some i \<Rightarrow> count_of (cell ws i 7) | None \<Rightarrow> Finite 0)"
    and "publish_date p =
           (case last_engagement_row repr ws (url p) of
              Some r \<Rightarrow> py_str repr (cell ws r 2) | None \<Rightarrow> [])"
proof -
  from merged_posts_member [OF assms] merged_posts_lookup [OF assms(1), of "url p"]
  have p: "Some p =
     (case last_engagement_row repr ws (url p) of
        Some r \<Rightarrow>
          Some ((engagement_entry repr ws r)
                 \<lparr>impressions := (case last_impression_row repr ws (url p) of
                                     Some i \<Rightarrow> count_of (cell ws i 7) | None \<Rightarrow> Finite 0)\<rparr>)
      | None \<Rightarrow>
          (case last_impression_row repr ws (url p) of
             Some i \<Rightarrow> Some ((impression_only_entry (url p))\<lparr>impressions := count_of (cell ws i 7)\<rparr>)
           | None \<Rightarrow> None))"
    by simp
  from arg_cong [OF p, of "map_option engagements"]
  show "engagements p =
           (case last_engagement_row repr ws (url p) of
              Some r \<Rightarrow> count_of (cell ws r 3) | None \<Rightarrow> Finite 0)"
    by (simp add: engagement_entry_def impression_only_entry_def split: option.splits)
  from arg_cong [OF p, of "map_option impressions"]
  show "impressions p =
           (case last_impression_row repr ws (url p) of
              Some i \<Rightarrow> count_of (cell ws i 7) | None \<Rightarrow> Finite 0)"
    by (simp add: engagement_entry_def impression_only_entry_def split: option.splits)
  from arg_cong [OF p, of "map_option publish_date"]
  show "publish_date p =
           (case last_engagement_row repr ws (url p) of
              Some r \<Rightarrow> py_str repr (cell ws r 2) | None \<Rightarrow> [])"
    by (simp add: engagement_entry_def impression_only_entry_def split: option.splits)
qed

text \<open>
  C1, as the code has it: the loops run in one order, engagements first. After both, the
  dictionary holds one record for each URL that a row of either view names, and none for
  any other. For a URL of the engagement view the record has the publish date and the
  engagements of the last engagement row for it, and the impressions of the last
  impression row for it, \<open>0\<close> when there is none; for a URL only the impression view
  names it has an empty publish date, engagements \<open>0\<close> and the impressions of the last
  impression row for it.
\<close>

theorem merge_in_source_order:
  "merged_posts repr ws = Inr posts \<longrightarrow>
     distinct (map fst posts)
   \<and> (\<forall>u. map_of posts u =
        (case last_engagement_row repr ws u of
           Some r \<Rightarrow>
             Some \<lparr>url = u,
                   publish_date = py_str repr (cell ws r 2),
                   engagements = count_of (cell ws r 3),
                   impressions = (case last_impression_row repr ws u of
                                    Some i \<Rightarrow> count_of (cell ws i 7) | None \<Rightarrow> Finite 0),
                   rank = None\<rparr>
         | None \<Rightarrow>
             (case last_impression_row repr ws u of
                Some i \<Rightarrow>
                  Some \<lparr>url = u, publish_date = [], engagements = Finite 0,
                        impressions = count_of (cell ws i 7), rank = None\<rparr>
              | None \<Rightarrow> None)))"
proof (intro impI conjI allI)
  assume a: "merged_posts repr ws = Inr posts"
  then show "distinct (map fst posts)"
    by (rule merged_posts_distinct)
  fix u
  show "map_of posts u =
        (case last_engagement_row repr ws u of
           Some r \<Rightarrow>
             Some \<lparr>url = u,
                   publish_date = py_str repr (cell ws r 2),
                   engagements = count_of (cell ws r 3),
                   impressions = (case last_impression_row repr ws u of
                                    Some i \<Rightarrow> count_of (cell ws i 7) | None \<Rightarrow> Finite 0),
                   rank = None\<rparr>
         | None \<Rightarrow>
             (case last_impression_row repr ws u of
                Some i \<Rightarrow>
                  Some \<lparr>url = u, publish_date = [], engagements = Finite 0,
                        impressions = count_of (cell ws i 7), rank = None\<rparr>
              | None \<Rightarrow> None))"
    using merged_posts_lookup [OF a, of u]
    by (auto simp: engagement_entry_def impression_only_entry_def last_engagement_row_def
        dest: find_last_Some split: option.splits)
qed

lemma example_sheet_last_rows:
  "last_engagement_row unused_repr example_sheet ''https://x/1'' = Some 4
   \<and> last_impression_row unused_repr example_sheet ''https://x/1'' = Some 4"
  by (simp add: last_engagement_row_def last_impression_row_def example_sheet_def
      data_rows_sheet_4 sheet_eval)

theorem merge_in_source_order_witness:
  "merged_posts unused_repr example_sheet =
     Inr [(''https://x/1'',
           \<lparr>url = ''https://x/1'', publish_date = ''2024-12-01'',
            engagements = Finite 12, impressions = Finite 500, rank = None\<rparr>)]
   \<and> last_engagement_row unused_repr example_sheet ''https://x/1'' = Some 4
   \<and> last_impression_row unused_repr example_sheet ''https://x/1'' = Some 4
   \<and> map_of [(''https://x/1'',
           \<lparr>url = ''https://x/1'', publish_date = ''2024-12-01'',
            engagements = Finite 12, impressions = Finite 500, rank = None\<rparr>)] ''https://x/1''
       = Some \<lparr>url = ''https://x/1'',
               publish_date = py_str unused_repr (cell example_sheet 4 2),
               engagements = count_of (cell example_sheet 4 3),
               impressions = count_of (cell example_sheet 4 7),
               rank = None\<rparr>"
proof -
  let ?posts = "[(''https://x/1'',
           \<lparr>url = ''https://x/1'', publish_date = ''2024-12-01'',
            engagements = Finite 12, impressions = Finite 500, rank = None\<rparr>)]"
  from merge_in_source_order [of unused_repr example_sheet ?posts] example_sheet_merged
  have "map_of ?posts ''https://x/1'' =
        (case last_engagement_row unused_repr example_sheet ''https://x/1'' of
           Some r \<Rightarrow>
             Some \<lparr>url = ''https://x/1'',
                   publish_date = py_str unused_repr (cell example_sheet r 2),
                   engagements = count_of (cell example_sheet r 3),
                   impressions = (case last_impression_row unused_repr example_sheet ''https://x/1'' of
                                    Some i \<Rightarrow> count_of (cell example_sheet i 7) | None \<Rightarrow> Finite 0),
                   rank = None\<rparr>
         | None \<Rightarrow>
             (case last_impression_row unused_repr example_sheet ''https://x/1'' of
                Some i \<Rightarrow>
                  Some \<lparr>url = ''https://x/1'', publish_date = [], engagements = Finite 0,
                        impressions = count_of (cell example_sheet i 7), rank = None\<rparr>
              | None \<Rightarrow> None))"
    by blast
  with example_sheet_last_rows example_sheet_merged show ?thesis
    by simp
qed

text \<open>
  C1 as stated fails: with the impression loop run first, the engagement loop stores
  \<open>impressions = 0\<close> over the count the impression row gave, so the two orders leave
  different records for the same URL.
\<close>

theorem scan_order_counterexample:
  "merged_posts unused_repr example_sheet =
     Inr [(''https://x/1'',
           \<lparr>url = ''https://x/1'', publish_date = ''2024-12-01'',
            engagements = Finite 12, impressions = Finite 500, rank = None\<rparr>)]
   \<and> merged_posts_impressions_first unused_repr example_sheet =
     Inr [(''https://x/1'',
           \<lparr>url = ''https://x/1'', publish_date = ''2024-12-01'',
            engagements = Finite 12, impressions = Finite 0, rank = None\<rparr>)]
   \<and> merged_posts_impressions_first unused_repr example_sheet \<noteq> merged_posts unused_repr example_sheet"
  by (simp add: example_sheet_merged example_sheet_reversed)

lemma scan_engagements_counts:
  "scan_engagements repr ws rows posts = Inr posts' \<Longrightarrow> r \<in> set (engagement_rows ws rows) \<Longrightarrow>
   float_or_zero (cell ws r 3) = Inr (count_of (cell ws r 3))"
proof (induction rows arbitrary: posts)
  case Nil
  then show ?case by simp
next
  case (Cons x rows)
  show ?case
  proof (cases "cell ws x 1 = CNone \<and> cell ws x 2 = CNone \<and> cell ws x 3 = CNone")
    case True
    with Cons.prems show ?thesis by simp
  next
    case stop: False
    show ?thesis
    proof (cases "cell ws x 1 = CNone \<or> cell ws x 2 = CNone")
      case True
      with stop Cons.prems have "scan_engagements repr ws rows posts = Inr posts'"
        and "r \<in> set (engagement_rows ws rows)"
        by auto
      then show ?thesis by (rule Cons.IH)
    next
      case False
      with stop Cons.prems obtain c posts0 where c: "float_or_zero (cell ws x 3) = Inr c"
        and s: "scan_engagements repr ws rows posts0 = Inr posts'"
        by (auto split: sum.splits)
      from False stop Cons.prems(2) have "r = x \<or> r \<in> set (engagement_rows ws rows)"
        by auto
      then show ?thesis
      proof
        assume "r = x"
        with c show ?thesis by (simp add: count_of_def)
      next
        assume "r \<in> set (engagement_rows ws rows)"
        with s show ?thesis by (rule Cons.IH)
      qed
    qed
  qed
qed

lemma scan_impressions_counts:
  "scan_impressions repr ws rows posts = Inr posts' \<Longrightarrow> r \<in> set (impression_rows ws rows) \<Longrightarrow>
   float_or_zero (cell ws r 7) = Inr (count_of (cell ws r 7))"
proof (induction rows arbitrary: posts)
  case Nil
  then show ?case by simp
next
  case (Cons x rows)
  show ?case
  proof (cases "cell ws x 5 = CNone \<and> cell ws x 7 = CNone")
    case True
    with Cons.prems show ?thesis by simp
  next
    case stop: False
    show ?thesis
    proof (cases "cell ws x 5 = CNone \<or> cell ws x 7 = CNone")
      case True
      with stop Cons.prems have "scan_impressions repr ws rows posts = Inr posts'"
        and "r \<in> set (impression_rows ws rows)"
        by auto
      then show ?thesis by (rule Cons.IH)
    next
      case False
      with stop Cons.prems obtain c posts0 where c: "float_or_zero (cell ws x 7) = Inr c"
        and s: "scan_impressions repr ws rows posts0 = Inr posts'"
        by (auto split: sum.splits)
      from False stop Cons.prems(2) have "r = x \<or> r \<in> set (impression_rows ws rows)"
        by auto
      then show ?thesis
      proof
        assume "r = x"
        with c show ?thesis by (simp add: count_of_def)
      next
        assume "r \<in> set (impression_rows ws rows)"
        with s show ?thesis by (rule Cons.IH)
      qed
    qed
  qed
qed

lemma merged_posts_counts:
  assumes "merged_posts repr ws = Inr posts"
  shows "last_engagement_row repr ws u = Some r \<Longrightarrow>
           float_or_zero (cell ws r 3) = Inr (count_of (cell ws r 3))"
    and "last_impression_row repr ws u = Some i \<Longrightarrow>
           float_or_zero (cell ws i 7) = Inr (count_of (cell ws i 7))"
proof -
  from assms obtain p0 where e: "scan_engagements repr ws (data_rows ws) [] = Inr p0"
    and i: "scan_impressions repr ws (data_rows ws) p0 = Inr posts"
    by (auto simp: merged_posts_def split: sum.splits)
  show "last_engagement_row repr ws u = Some r \<Longrightarrow>
           float_or_zero (cell ws r 3) = Inr (count_of (cell ws r 3))"
    using scan_engagements_counts [OF e, of r]
    by (auto simp: last_engagement_row_def dest: find_last_Some)
  show "last_impression_row repr ws u = Some i \<Longrightarrow>
           float_or_zero (cell ws i 7) = Inr (count_of (cell ws i 7))"
    using scan_impressions_counts [OF i, of i]
    by (auto simp: last_impression_row_def dest: find_last_Some)
qed

lemma merged_posts_cells:
  assumes "merged_posts repr ws = Inr posts" and "p \<in> set (map snd posts)"
  shows "case last_engagement_row repr ws (url p) of
           Some r \<Rightarrow> float_or_zero (cell ws r 3) = Inr (engagements p)
         | None \<Rightarrow> engagements p = Finite 0"
    and "case last_impression_row repr ws (url p) of
           Some r \<Rightarrow> float_or_zero (cell ws r 7) = Inr (impressions p)
         | None \<Rightarrow> impressions p = Finite 0"
  using merged_posts_fields(1,2) [OF assms] merged_posts_counts [OF assms(1), of "url p"]
  by (auto split: option.splits)

lemma crossed_sheet_merged:
  "merged_posts unused_repr crossed_sheet =
     Inr [(''https://x/1'',
           \<lparr>url = ''https://x/1'', publish_date = ''2024-12-01'',
            engagements = Finite 12, impressions = Finite 0, rank = None\<rparr>),
          (''https://x/2'',
           \<lparr>url = ''https://x/2'', publish_date = ''2024-12-02'',
            engagements = Finite 30, impressions = Finite 500, rank = None\<rparr>)]"
  by (simp add: merged_posts_def crossed_sheet_def data_rows_sheet_5 sheet_eval
      py_float_str_def float_strip_def is_c_space_def py_strip_def is_space_def ascii_lower_def
      decimal_value_def exponent_value_def is_digit_def)

lemma crossed_sheet_parsed:
  "parse_top_posts_sheet unused_repr [''TOP POSTS'' \<mapsto> crossed_sheet] =
     Inr [\<lparr>url = ''https://x/2'', publish_date = ''2024-12-02'',
            engagements = Finite 30, impressions = Finite 500, rank = None\<rparr>,
          \<lparr>url = ''https://x/1'', publish_date = ''2024-12-01'',
            engagements = Finite 12, impressions = Finite 0, rank = None\<rparr>]"
  by (simp add: parse_top_posts_sheet_def crossed_sheet_merged sort_by_engagements_desc_def)

lemma crossed_sheet_last_rows:
  "last_engagement_row unused_repr crossed_sheet ''https://x/1'' = Some 4
   \<and> last_engagement_row unused_repr crossed_sheet ''https://x/2'' = Some 5
   \<and> last_impression_row unused_repr crossed_sheet ''https://x/1'' = Some 5
   \<and> last_impression_row unused_repr crossed_sheet ''https://x/2'' = Some 4"
  by (simp add: last_engagement_row_def last_impression_row_def crossed_sheet_def
      data_rows_sheet_5 sheet_eval)

text \<open>
  C7, as the code has it. A count is \<open>0\<close> when its cell is empty or otherwise falsy, or
  when \<open>float\<close> refuses the cell's value (ValueError or TypeError), and it is the float of
  the cell's value in every other case. In every returned record the engagements field
  is that count for the cell of column C in the last engagement row that names the
  record's URL, and \<open>0\<close> when no engagement row names it; the impressions field is that
  count for the cell of column G in the last impression row that names the record's URL,
  and \<open>0\<close> when no impression row names it. Nothing makes a negative number positive.
  So the fields are all non-negative when no cell of the two columns converts to a float
  below \<open>0\<close> or to NaN.
\<close>

theorem counts_come_from_cells:
  "(\<forall>v. v = CNone \<or> py_float v = Inl ValueErr \<or> py_float v = Inl TypeErr \<longrightarrow>
        float_or_zero v = Inr (Finite 0))
   \<and> (\<forall>v. \<not> truthy v \<longrightarrow> float_or_zero v = Inr (Finite 0))
   \<and> (\<forall>v f. truthy v \<and> py_float v = Inr f \<longrightarrow> float_or_zero v = Inr f)
   \<and> (parse_top_posts_sheet repr wb = Inr ps \<and> wb ''TOP POSTS'' = Some ws \<longrightarrow>
        (\<forall>p \<in> set ps.
           (case last_engagement_row repr ws (url p) of
              Some r \<Rightarrow> float_or_zero (cell ws r 3) = Inr (engagements p)
            | None \<Rightarrow> engagements p = Finite 0)
         \<and> (case last_impression_row repr ws (url p) of
              Some r \<Rightarrow> float_or_zero (cell ws r 7) = Inr (impressions p)
            | None \<Rightarrow> impressions p = Finite 0))
      \<and> (\<forall>p \<in> set ps.
           (engagements p = Finite 0
            \<or> (\<exists>r \<in> set (data_rows ws). py_float (cell ws r 3) = Inr (engagements p)))
         \<and> (impressions p = Finite 0
            \<or> (\<exists>r \<in> set (data_rows ws). py_float (cell ws r 7) = Inr (impressions p))))
      \<and> ((\<forall>r \<in> set (data_rows ws). \<forall>f.
              py_float (cell ws r 3) = Inr f \<or> py_float (cell ws r 7) = Inr f \<longrightarrow> py_ge f (Finite 0))
           \<longrightarrow> (\<forall>p \<in> set ps. py_ge (engagements p) (Finite 0) \<and> py_ge (impressions p) (Finite 0))))"
proof (intro conjI allI impI)
  fix v
  assume "v = CNone \<or> py_float v = Inl ValueErr \<or> py_float v = Inl TypeErr"
  then show "float_or_zero v = Inr (Finite 0)"
    by (auto simp: float_or_zero_def truthy_def)
next
  fix v
  assume "\<not> truthy v"
  then show "float_or_zero v = Inr (Finite 0)"
    by (simp add: float_or_zero_def)
next
  fix v f
  assume "truthy v \<and> py_float v = Inr f"
  then show "float_or_zero v = Inr f"
    by (simp add: float_or_zero_def)
next
  assume a: "parse_top_posts_sheet repr wb = Inr ps \<and> wb ''TOP POSTS'' = Some ws"
  then obtain posts where m: "merged_posts repr ws = Inr posts"
    and ps: "ps = sort_by_engagements_desc (map snd posts)"
    by (auto elim: parse_top_posts_sheet_Inr)
  have mem: "p \<in> set (map snd posts)" if "p \<in> set ps" for p
    using that ps by (simp add: set_sort_desc)
  show "\<forall>p \<in> set ps.
           (case last_engagement_row repr ws (url p) of
              Some r \<Rightarrow> float_or_zero (cell ws r 3) = Inr (engagements p)
            | None \<Rightarrow> engagements p = Finite 0)
         \<and> (case last_impression_row repr ws (url p) of
              Some r \<Rightarrow> float_or_zero (cell ws r 7) = Inr (impressions p)
            | None \<Rightarrow> impressions p = Finite 0)"
    using merged_posts_cells [OF m mem] by blast
  have src: "(engagements p = Finite 0
            \<or> (\<exists>r \<in> set (data_rows ws). py_float (cell ws r 3) = Inr (engagements p)))
         \<and> (impressions p = Finite 0
            \<or> (\<exists>r \<in> set (data_rows ws). py_float (cell ws r 7) = Inr (impressions p)))"
    if "p \<in> set ps" for p
  proof -
    have e: "engagements p = Finite 0
            \<or> (\<exists>r \<in> set (data_rows ws). py_float (cell ws r 3) = Inr (engagements p))"
    proof (cases "last_engagement_row repr ws (url p)")
      case None
      with merged_posts_cells(1) [OF m mem [OF that]] show ?thesis by simp
    next
      case (Some r)
      then have "r \<in> set (data_rows ws)"
        using engagement_rows_subset [of ws "data_rows ws"]
        by (auto simp: last_engagement_row_def dest: find_last_Some)
      moreover from Some merged_posts_cells(1) [OF m mem [OF that]]
      have "float_or_zero (cell ws r 3) = Inr (engagements p)"
        by simp
      ultimately show ?thesis
        by (auto dest: float_or_zero_cases)
    qed
    have i: "impressions p = Finite 0
            \<or> (\<exists>r \<in> set (data_rows ws). py_float (cell ws r 7) = Inr (impressions p))"
    proof (cases "last_impression_row repr ws (url p)")
      case None
      with merged_posts_cells(2) [OF m mem [OF that]] show ?thesis by simp
    next
      case (Some r)
      then have "r \<in> set (data_rows ws)"
        using impression_rows_subset [of ws "data_rows ws"]
        by (auto simp: last_impression_row_def dest: find_last_Some)
      moreover from Some merged_posts_cells(2) [OF m mem [OF that]]
      have "float_or_zero (cell ws r 7) = Inr (impressions p)"
        by simp
      ultimately show ?thesis
        by (auto dest: float_or_zero_cases)
    qed
    from e i show ?thesis ..
  qed
  then show "\<forall>p \<in> set ps.
           (engagements p = Finite 0
            \<or> (\<exists>r \<in> set (data_rows ws). py_float (cell ws r 3) = Inr (engagements p)))
         \<and> (impressions p = Finite 0
            \<or> (\<exists>r \<in> set (data_rows ws). py_float (cell ws r 7) = Inr (impressions p)))"
    by blast
  assume nn: "\<forall>r \<in> set (data_rows ws). \<forall>f.
              py_float (cell ws r 3) = Inr f \<or> py_float (cell ws r 7) = Inr f \<longrightarrow> py_ge f (Finite 0)"
  have z: "py_ge (Finite 0) (Finite 0)"
    by (simp add: py_ge_def)
  show "\<forall>p \<in> set ps. py_ge (engagements p) (Finite 0) \<and> py_ge (impressions p) (Finite 0)"
  proof
    fix p assume "p \<in> set ps"
    from src [OF this] nn z show "py_ge (engagements p) (Finite 0) \<and> py_ge (impressions p) (Finite 0)"
      by metis
  qed
qed

theorem counts_come_from_cells_witness:
  "float_or_zero CNone = Inr (Finite 0)
   \<and> py_float (CStr ''n/a'') = Inl ValueErr
   \<and> float_or_zero (CStr ''n/a'') = Inr (Finite 0)
   \<and> parse_top_posts_sheet unused_repr [''TOP POSTS'' \<mapsto> crossed_sheet] =
       Inr [\<lparr>url = ''https://x/2'', publish_date = ''2024-12-02'',
             engagements = Finite 30, impressions = Finite 500, rank = None\<rparr>,
            \<lparr>url = ''https://x/1'', publish_date = ''2024-12-01'',
             engagements = Finite 12, impressions = Finite 0, rank = None\<rparr>]
   \<and> [''TOP POSTS'' \<mapsto> crossed_sheet] ''TOP POSTS'' = Some crossed_sheet
   \<and> data_rows crossed_sheet = [4, 5]
   \<and> last_engagement_row unused_repr crossed_sheet ''https://x/2'' = Some 5
   \<and> float_or_zero (cell crossed_sheet 5 3) = Inr (Finite 30)
   \<and> last_impression_row unused_repr crossed_sheet ''https://x/2'' = Some 4
   \<and> float_or_zero (cell crossed_sheet 4 7) = Inr (Finite 500)
   \<and> last_engagement_row unused_repr crossed_sheet ''https://x/1'' = Some 4
   \<and> float_or_zero (cell crossed_sheet 4 3) = Inr (Finite 12)
   \<and> last_impression_row unused_repr crossed_sheet ''https://x/1'' = Some 5
   \<and> cell crossed_sheet 5 7 = CStr ''n/a''
   \<and> float_or_zero (cell crossed_sheet 5 7) = Inr (Finite 0)
   \<and> py_ge (Finite 30) (Finite 0) \<and> py_ge (Finite 500) (Finite 0)
   \<and> py_ge (Finite 12) (Finite 0) \<and> py_ge (Finite 0) (Finite 0)"
proof -
  let ?p2 = "\<lparr>url = ''https://x/2'', publish_date = ''2024-12-02'',
             engagements = Finite 30, impressions = Finite 500, rank = None\<rparr>"
  let ?p1 = "\<lparr>url = ''https://x/1'', publish_date = ''2024-12-01'',
             engagements = Finite 12, impressions = Finite 0, rank = None\<rparr>"
  let ?wb = "[''TOP POSTS'' \<mapsto> crossed_sheet]"
  note t = counts_come_from_cells [of unused_repr ?wb "[?p2, ?p1]" crossed_sheet]
  have s: "py_float (CStr ''n/a'') = Inl ValueErr"
    by (simp add: py_float_def py_float_str_def float_strip_def is_c_space_def py_strip_def is_space_def ascii_lower_def
        decimal_value_def exponent_value_def is_digit_def)
  from t s have z: "float_or_zero CNone = Inr (Finite 0) \<and> float_or_zero (CStr ''n/a'') = Inr (Finite 0)"
    by blast
  have rows: "data_rows crossed_sheet = [4, 5]"
    by (simp add: crossed_sheet_def data_rows_sheet_5)
  have na: "cell crossed_sheet 5 7 = CStr ''n/a''"
    by (simp add: crossed_sheet_def cell_sheet_of)
  have c: "py_float (cell crossed_sheet 4 3) = Inr (Finite 12)"
    "py_float (cell crossed_sheet 5 3) = Inr (Finite 30)"
    "py_float (cell crossed_sheet 4 7) = Inr (Finite 500)"
    by (simp_all add: crossed_sheet_def cell_sheet_of py_float_def)
  have hyp: "\<forall>r \<in> set (data_rows crossed_sheet). \<forall>f.
              py_float (cell crossed_sheet r 3) = Inr f \<or> py_float (cell crossed_sheet r 7) = Inr f
              \<longrightarrow> py_ge f (Finite 0)"
    using rows c na s by (auto simp: py_ge_def)
  from t crossed_sheet_parsed
  have "\<forall>p \<in> set [?p2, ?p1].
           (case last_engagement_row unused_repr crossed_sheet (url p) of
              Some r \<Rightarrow> float_or_zero (cell crossed_sheet r 3) = Inr (engagements p)
            | None \<Rightarrow> engagements p = Finite 0)
         \<and> (case last_impression_row unused_repr crossed_sheet (url p) of
              Some r \<Rightarrow> float_or_zero (cell crossed_sheet r 7) = Inr (impressions p)
            | None \<Rightarrow> impressions p = Finite 0)"
    by simp
  then have f: "float_or_zero (cell crossed_sheet 5 3) = Inr (Finite 30)
      \<and> float_or_zero (cell crossed_sheet 4 7) = Inr (Finite 500)
      \<and> float_or_zero (cell crossed_sheet 4 3) = Inr (Finite 12)
      \<and> float_or_zero (cell crossed_sheet 5 7) = Inr (Finite 0)"
    by (simp add: crossed_sheet_last_rows)
  from t crossed_sheet_parsed hyp
  have "\<forall>p \<in> set [?p2, ?p1]. py_ge (engagements p) (Finite 0) \<and> py_ge (impressions p) (Finite 0)"
    by simp
  then have ge: "py_ge (Finite 30) (Finite 0) \<and> py_ge (Finite 500) (Finite 0)
      \<and> py_ge (Finite 12) (Finite 0) \<and> py_ge (Finite 0) (Finite 0)"
    by simp
  from z s crossed_sheet_parsed rows crossed_sheet_last_rows na f ge show ?thesis
    by simp
qed

text \<open>
  C7 as stated fails: a negative number in the sheet comes back as a negative
  engagements or impressions value.
\<close>

theorem negative_count_counterexample:
  "parse_top_posts_sheet unused_repr [''TOP POSTS'' \<mapsto> negative_sheet] =
     Inr [\<lparr>url = ''https://x/1'', publish_date = ''2024-12-01'',
           engagements = Finite (- 5), impressions = Finite (- 3), rank = None\<rparr>]
   \<and> py_lt (Finite (- 5)) (Finite 0) \<and> py_lt (Finite (- 3)) (Finite 0)
   \<and> \<not> py_ge (Finite (- 5)) (Finite 0) \<and> \<not> py_ge (Finite (- 3)) (Finite 0)"
  by (simp add: parse_top_posts_sheet_def negative_sheet_merged sort_by_engagements_desc_def py_ge_def)

lemma set_first_seen_aux:
  "set (fold (\<lambda>k ks. if k \<in> set ks then ks else ks @ [k]) xs ks) = set xs \<union> set ks"
  by (induction xs arbitrary: ks) auto

lemma set_first_seen: "set (first_seen xs) = set xs"
  by (simp add: first_seen_def set_first_seen_aux)

lemma repeated_sheet_parsed:
  "parse_top_posts_sheet unused_repr [''TOP POSTS'' \<mapsto> repeated_sheet] =
     Inr [\<lparr>url = ''https://x/1'', publish_date = ''2024-12-03'',
            engagements = Finite 40, impressions = Finite 0, rank = None\<rparr>,
          \<lparr>url = ''https://x/2'', publish_date = ''2024-12-02'',
            engagements = Finite 40, impressions = Finite 0, rank = None\<rparr>,
          \<lparr>url = ''https://x/3'', publish_date = [],
            engagements = Finite 0, impressions = Finite 7, rank = None\<rparr>]"
  by (simp add: parse_top_posts_sheet_def repeated_sheet_merged sort_by_engagements_desc_def)

lemma repeated_sheet_encounter:
  "encounter_urls unused_repr repeated_sheet =
     [''https://x/1'', ''https://x/2'', ''https://x/1'', ''https://x/3'']"
  by (simp add: encounter_urls_def repeated_sheet_def data_rows_sheet_6 sheet_eval)

lemma py_ge_antisym: "py_ge a b \<Longrightarrow> py_ge b a \<Longrightarrow> a = b"
  by (cases a; cases b) (auto simp: py_ge_def)

text \<open>
  A list has at most one arrangement that is both in descending order of engagements
  and stable. So, for a list without NaN keys, every sort that is stable and puts the
  keys in descending order returns what \<open>sort_by_engagements_desc\<close> returns.
\<close>

lemma stable_descending_unique:
  assumes "sorted_wrt (\<lambda>a b. py_ge (engagements a) (engagements b)) xs"
    and "sorted_wrt (\<lambda>a b. py_ge (engagements a) (engagements b)) ys"
    and "\<forall>c. filter (\<lambda>p. engagements p = c) xs = filter (\<lambda>p. engagements p = c) ys"
  shows "xs = ys"
  using assms
proof (induction xs arbitrary: ys)
  case Nil
  show ?case
  proof (cases ys)
    case Nil
    then show ?thesis by simp
  next
    case (Cons y ys')
    from Nil.prems(3) have "filter (\<lambda>p. engagements p = engagements y) [] =
        filter (\<lambda>p. engagements p = engagements y) ys"
      by blast
    with Cons show ?thesis by simp
  qed
next
  case (Cons x xs)
  from Cons.prems(3) have fx: "filter (\<lambda>p. engagements p = engagements x) (x # xs) =
      filter (\<lambda>p. engagements p = engagements x) ys"
    by blast
  then have "ys \<noteq> []"
    by auto
  then obtain y ys' where ys: "ys = y # ys'"
    by (cases ys) auto
  have k: "engagements x = engagements y"
  proof (rule ccontr)
    assume ne: "engagements x \<noteq> engagements y"
    from Cons.prems(3) have "filter (\<lambda>p. engagements p = engagements y) (x # xs) =
        filter (\<lambda>p. engagements p = engagements y) ys"
      by blast
    with ne ys have "filter (\<lambda>p. engagements p = engagements y) xs =
        y # filter (\<lambda>p. engagements p = engagements y) ys'"
      by simp
    then have "y \<in> set (filter (\<lambda>p. engagements p = engagements y) xs)"
      by simp
    then have "y \<in> set xs"
      by simp
    with Cons.prems(1) have 1: "py_ge (engagements x) (engagements y)"
      by simp
    from fx ne ys have "x # filter (\<lambda>p. engagements p = engagements x) xs =
        filter (\<lambda>p. engagements p = engagements x) ys'"
      by simp
    then have "x \<in> set (filter (\<lambda>p. engagements p = engagements x) ys')"
      by (metis list.set_intros(1))
    then have "x \<in> set ys'"
      by simp
    with Cons.prems(2) ys have 2: "py_ge (engagements y) (engagements x)"
      by simp
    from 1 2 ne show False
      by (auto dest: py_ge_antisym)
  qed
  from fx ys k have xy: "x = y"
    by simp
  have "\<forall>c. filter (\<lambda>p. engagements p = c) xs = filter (\<lambda>p. engagements p = c) ys'"
  proof
    fix c
    from Cons.prems(3) ys have "filter (\<lambda>p. engagements p = c) (x # xs) =
        filter (\<lambda>p. engagements p = c) (y # ys')"
      by blast
    with xy show "filter (\<lambda>p. engagements p = c) xs = filter (\<lambda>p. engagements p = c) ys'"
      by (simp split: if_splits)
  qed
  with Cons.IH [of ys'] Cons.prems(1,2) ys xy show ?case
    by simp
qed

text \<open>
  C8, as the code has it. The records returned are those of the dictionary the two loops
  build, and the dictionary lists the URLs in the order in which the loops first meet
  them. When no engagements value is NaN, the result is in descending order of
  engagements and the sort is stable: the records of the result that have a given
  engagements value are, in the same order, those of the dictionary. With a NaN among
  the engagements neither is claimed.
\<close>

theorem sorted_and_stable:
  "parse_top_posts_sheet repr wb = Inr ps \<and> wb ''TOP POSTS'' = Some ws \<longrightarrow>
     (\<exists>posts. merged_posts repr ws = Inr posts
        \<and> map url (map snd posts) = first_seen (encounter_urls repr ws)
        \<and> set ps = set (map snd posts) \<and> length ps = length posts
        \<and> ((\<forall>p \<in> set ps. engagements p \<noteq> NaN) \<longrightarrow>
             sorted_wrt (\<lambda>a b. py_ge (engagements a) (engagements b)) ps
           \<and> (\<forall>c. filter (\<lambda>p. engagements p = c) ps =
                    filter (\<lambda>p. engagements p = c) (map snd posts))))"
proof
  assume a: "parse_top_posts_sheet repr wb = Inr ps \<and> wb ''TOP POSTS'' = Some ws"
  then obtain posts where m: "merged_posts repr ws = Inr posts"
    and ps: "ps = sort_by_engagements_desc (map snd posts)"
    by (auto elim: parse_top_posts_sheet_Inr)
  have "map url (map snd posts) = first_seen (encounter_urls repr ws)"
    using merged_posts_urls [OF m] merged_posts_keys [OF m] by simp
  moreover have "set ps = set (map snd posts)"
    by (simp only: ps set_sort_desc)
  moreover have "length ps = length posts"
    by (simp add: ps length_sort_desc)
  moreover have "\<forall>c. filter (\<lambda>p. engagements p = c) ps = filter (\<lambda>p. engagements p = c) (map snd posts)"
    by (simp add: ps filter_sort_desc)
  moreover have "(\<forall>p \<in> set ps. engagements p \<noteq> NaN) \<longrightarrow>
        sorted_wrt (\<lambda>a b. py_ge (engagements a) (engagements b)) ps"
    using sorted_sort_desc [of "map snd posts"] by (simp add: ps set_sort_desc)
  ultimately show "\<exists>posts. merged_posts repr ws = Inr posts
        \<and> map url (map snd posts) = first_seen (encounter_urls repr ws)
        \<and> set ps = set (map snd posts) \<and> length ps = length posts
        \<and> ((\<forall>p \<in> set ps. engagements p \<noteq> NaN) \<longrightarrow>
             sorted_wrt (\<lambda>a b. py_ge (engagements a) (engagements b)) ps
           \<and> (\<forall>c. filter (\<lambda>p. engagements p = c) ps =
                    filter (\<lambda>p. engagements p = c) (map snd posts)))"
    using m by blast
qed

theorem sorted_and_stable_witness:
  "parse_top_posts_sheet unused_repr [''TOP POSTS'' \<mapsto> repeated_sheet] =
     Inr [\<lparr>url = ''https://x/1'', publish_date = ''2024-12-03'',
            engagements = Finite 40, impressions = Finite 0, rank = None\<rparr>,
          \<lparr>url = ''https://x/2'', publish_date = ''2024-12-02'',
            engagements = Finite 40, impressions = Finite 0, rank = None\<rparr>,
          \<lparr>url = ''https://x/3'', publish_date = [],
            engagements = Finite 0, impressions = Finite 7, rank = None\<rparr>]
   \<and> [''TOP POSTS'' \<mapsto> repeated_sheet] ''TOP POSTS'' = Some repeated_sheet
   \<and> first_seen (encounter_urls unused_repr repeated_sheet) = [''https://x/1'', ''https://x/2'', ''https://x/3'']
   \<and> sorted_wrt (\<lambda>a b. py_ge (engagements a) (engagements b))
       [\<lparr>url = ''https://x/1'', publish_date = ''2024-12-03'',
            engagements = Finite 40, impressions = Finite 0, rank = None\<rparr>,
          \<lparr>url = ''https://x/2'', publish_date = ''2024-12-02'',
            engagements = Finite 40, impressions = Finite 0, rank = None\<rparr>,
          \<lparr>url = ''https://x/3'', publish_date = [],
            engagements = Finite 0, impressions = Finite 7, rank = None\<rparr>]
   \<and> filter (\<lambda>p. engagements p = Finite 40)
       [\<lparr>url = ''https://x/1'', publish_date = ''2024-12-03'',
            engagements = Finite 40, impressions = Finite 0, rank = None\<rparr>,
          \<lparr>url = ''https://x/2'', publish_date = ''2024-12-02'',
            engagements = Finite 40, impressions = Finite 0, rank = None\<rparr>,
          \<lparr>url = ''https://x/3'', publish_date = [],
            engagements = Finite 0, impressions = Finite 7, rank = None\<rparr>]
     = filter (\<lambda>p. engagements p = Finite 40)
         (map snd
           [(''https://x/1'',
             \<lparr>url = ''https://x/1'', publish_date = ''2024-12-03'',
              engagements = Finite 40, impressions = Finite 0, rank = None\<rparr>),
            (''https://x/2'',
             \<lparr>url = ''https://x/2'', publish_date = ''2024-12-02'',
              engagements = Finite 40, impressions = Finite 0, rank = None\<rparr>),
            (''https://x/3'',
             \<lparr>url = ''https://x/3'', publish_date = [],
              engagements = Finite 0, impressions = Finite 7, rank = None\<rparr>)])"
proof -
  let ?ps = "[\<lparr>url = ''https://x/1'', publish_date = ''2024-12-03'',
            engagements = Finite 40, impressions = Finite 0, rank = None\<rparr>,
          \<lparr>url = ''https://x/2'', publish_date = ''2024-12-02'',
            engagements = Finite 40, impressions = Finite 0, rank = None\<rparr>,
          \<lparr>url = ''https://x/3'', publish_date = [],
            engagements = Finite 0, impressions = Finite 7, rank = None\<rparr>]"
  have n: "\<forall>p \<in> set ?ps. engagements p \<noteq> NaN"
    by simp
  have f: "first_seen (encounter_urls unused_repr repeated_sheet) = [''https://x/1'', ''https://x/2'', ''https://x/3'']"
    by (simp add: repeated_sheet_encounter first_seen_def)
  from sorted_and_stable [of unused_repr "[''TOP POSTS'' \<mapsto> repeated_sheet]" ?ps repeated_sheet]
    repeated_sheet_parsed
  obtain posts where m: "merged_posts unused_repr repeated_sheet = Inr posts"
    and st: "(\<forall>p \<in> set ?ps. engagements p \<noteq> NaN) \<longrightarrow>
             sorted_wrt (\<lambda>a b. py_ge (engagements a) (engagements b)) ?ps
           \<and> (\<forall>c. filter (\<lambda>p. engagements p = c) ?ps =
                    filter (\<lambda>p. engagements p = c) (map snd posts))"
    by auto
  from st n have s: "sorted_wrt (\<lambda>a b. py_ge (engagements a) (engagements b)) ?ps"
    and e: "filter (\<lambda>p. engagements p = Finite 40) ?ps =
            filter (\<lambda>p. engagements p = Finite 40) (map snd posts)"
    by blast+
  from m have posts: "posts = [(''https://x/1'',
             \<lparr>url = ''https://x/1'', publish_date = ''2024-12-03'',
              engagements = Finite 40, impressions = Finite 0, rank = None\<rparr>),
            (''https://x/2'',
             \<lparr>url = ''https://x/2'', publish_date = ''2024-12-02'',
              engagements = Finite 40, impressions = Finite 0, rank = None\<rparr>),
            (''https://x/3'',
             \<lparr>url = ''https://x/3'', publish_date = [],
              engagements = Finite 0, impressions = Finite 7, rank = None\<rparr>)]"
    by (simp add: repeated_sheet_merged)
  from repeated_sheet_parsed f s e [unfolded posts] show ?thesis
    by simp
qed

text \<open>
  C8 as stated fails: the text \<open>nan\<close> in the engagements column becomes NaN, which is
  neither above nor below any number, so the list returned is not in descending order;
  no order of its two records is.
\<close>

theorem nan_order_counterexample:
  "parse_top_posts_sheet unused_repr [''TOP POSTS'' \<mapsto> nan_sheet] =
     Inr [\<lparr>url = ''https://x/1'', publish_date = ''2024-12-01'',
            engagements = Finite 1, impressions = Finite 0, rank = None\<rparr>,
          \<lparr>url = ''https://x/2'', publish_date = ''2024-12-02'',
            engagements = NaN, impressions = Finite 0, rank = None\<rparr>]
   \<and> \<not> sorted_wrt (\<lambda>a b. py_ge (engagements a) (engagements b))
       [\<lparr>url = ''https://x/1'', publish_date = ''2024-12-01'',
            engagements = Finite 1, impressions = Finite 0, rank = None\<rparr>,
          \<lparr>url = ''https://x/2'', publish_date = ''2024-12-02'',
            engagements = NaN, impressions = Finite 0, rank = None\<rparr>]
   \<and> \<not> sorted_wrt (\<lambda>a b. py_ge (engagements a) (engagements b))
       [\<lparr>url = ''https://x/2'', publish_date = ''2024-12-02'',
            engagements = NaN, impressions = Finite 0, rank = None\<rparr>,
        \<lparr>url = ''https://x/1'', publish_date = ''2024-12-01'',
            engagements = Finite 1, impressions = Finite 0, rank = None\<rparr>]"
  by (simp add: parse_top_posts_sheet_def nan_sheet_merged sort_by_engagements_desc_def py_ge_def)

text \<open>
  C10: the URLs of the returned records are pairwise distinct, and they are the URLs the
  two loops met. The record of a URL that several engagement rows name has the publish
  date and the engagements of the last of them.
\<close>

theorem urls_distinct:
  "parse_top_posts_sheet repr wb = Inr ps \<and> wb ''TOP POSTS'' = Some ws \<longrightarrow>
     distinct (map url ps)
   \<and> set (map url ps) = set (encounter_urls repr ws)
   \<and> (\<forall>p \<in> set ps. \<forall>r. last_engagement_row repr ws (url p) = Some r \<longrightarrow>
         publish_date p = py_str repr (cell ws r 2) \<and> engagements p = count_of (cell ws r 3))"
proof (intro impI conjI ballI allI)
  assume a: "parse_top_posts_sheet repr wb = Inr ps \<and> wb ''TOP POSTS'' = Some ws"
  then obtain posts where m: "merged_posts repr ws = Inr posts"
    and ps: "ps = sort_by_engagements_desc (map snd posts)"
    by (auto elim: parse_top_posts_sheet_Inr)
  have u: "map url (map snd posts) = first_seen (encounter_urls repr ws)"
    using merged_posts_urls [OF m] merged_posts_keys [OF m] by simp
  have "distinct (map url (map snd posts))"
    by (simp only: u distinct_first_seen)
  then show "distinct (map url ps)"
    by (simp only: ps distinct_sort_desc)
  have "set (map url ps) = set (map url (map snd posts))"
    by (simp only: set_map ps set_sort_desc)
  also have "\<dots> = set (encounter_urls repr ws)"
    by (simp only: u set_first_seen)
  finally show "set (map url ps) = set (encounter_urls repr ws)" .
  fix p r
  assume p: "p \<in> set ps" and r: "last_engagement_row repr ws (url p) = Some r"
  from p ps have mem: "p \<in> set (map snd posts)"
    by (simp add: set_sort_desc)
  from merged_posts_fields(3) [OF m mem] r show "publish_date p = py_str repr (cell ws r 2)"
    by simp
  from merged_posts_fields(1) [OF m mem] r show "engagements p = count_of (cell ws r 3)"
    by simp
qed

theorem urls_distinct_witness:
  "parse_top_posts_sheet unused_repr [''TOP POSTS'' \<mapsto> repeated_sheet] =
     Inr [\<lparr>url = ''https://x/1'', publish_date = ''2024-12-03'',
            engagements = Finite 40, impressions = Finite 0, rank = None\<rparr>,
          \<lparr>url = ''https://x/2'', publish_date = ''2024-12-02'',
            engagements = Finite 40, impressions = Finite 0, rank = None\<rparr>,
          \<lparr>url = ''https://x/3'', publish_date = [],
            engagements = Finite 0, impressions = Finite 7, rank = None\<rparr>]
   \<and> [''TOP POSTS'' \<mapsto> repeated_sheet] ''TOP POSTS'' = Some repeated_sheet
   \<and> last_engagement_row unused_repr repeated_sheet ''https://x/1'' = Some 6
   \<and> py_str unused_repr (cell repeated_sheet 6 2) = ''2024-12-03''
   \<and> count_of (cell repeated_sheet 6 3) = Finite 40
   \<and> distinct [''https://x/1'', ''https://x/2'', ''https://x/3'']"
proof -
  let ?p = "\<lparr>url = ''https://x/1'', publish_date = ''2024-12-03'',
            engagements = Finite 40, impressions = Finite 0, rank = None\<rparr>"
  let ?ps = "[?p,
          \<lparr>url = ''https://x/2'', publish_date = ''2024-12-02'',
            engagements = Finite 40, impressions = Finite 0, rank = None\<rparr>,
          \<lparr>url = ''https://x/3'', publish_date = [],
            engagements = Finite 0, impressions = Finite 7, rank = None\<rparr>]"
  note t = urls_distinct [of unused_repr "[''TOP POSTS'' \<mapsto> repeated_sheet]" ?ps repeated_sheet]
  have l: "last_engagement_row unused_repr repeated_sheet ''https://x/1'' = Some 6"
    by (simp add: last_engagement_row_def repeated_sheet_def data_rows_sheet_6 sheet_eval)
  from t repeated_sheet_parsed have d: "distinct (map url ?ps)"
    by simp
  from t repeated_sheet_parsed l
  have "publish_date ?p = py_str unused_repr (cell repeated_sheet 6 2)
        \<and> engagements ?p = count_of (cell repeated_sheet 6 3)"
    by simp
  with d l repeated_sheet_parsed show ?thesis
    by simp
qed

subsection \<open>\<open>get_top_posts\<close>\<close>

lemma assign_ranks_other: "r \<notin> set rs \<Longrightarrow> assign_ranks h idx rs r = h r"
  by (induction rs arbitrary: h idx) auto

lemma assign_ranks_fields:
  "url (assign_ranks h idx rs r) = url (h r)
   \<and> publish_date (assign_ranks h idx rs r) = publish_date (h r)
   \<and> engagements (assign_ranks h idx rs r) = engagements (h r)
   \<and> impressions (assign_ranks h idx rs r) = impressions (h r)"
  by (induction rs arbitrary: h idx) auto

lemma assign_ranks_ranked: "r \<in> set rs \<Longrightarrow> rank (assign_ranks h idx rs r) \<noteq> None"
proof (induction rs arbitrary: h idx)
  case Nil
  then show ?case by simp
next
  case (Cons a rs)
  show ?case
  proof (cases "r \<in> set rs")
    case True
    then show ?thesis using Cons.IH by simp
  next
    case False
    with Cons.prems have "r = a" by simp
    with False show ?thesis by (simp add: assign_ranks_other)
  qed
qed

lemma assign_ranks_nth:
  "distinct rs \<Longrightarrow> i < length rs \<Longrightarrow>
   assign_ranks h idx rs (rs ! i) = (h (rs ! i))\<lparr>rank := Some (idx + i)\<rparr>"
proof (induction rs arbitrary: h idx i)
  case Nil
  then show ?case by simp
next
  case (Cons a rs)
  show ?case
  proof (cases i)
    case 0
    with Cons.prems show ?thesis by (simp add: assign_ranks_other)
  next
    case (Suc j)
    with Cons.prems have j: "j < length rs" and d: "distinct rs" and n: "rs ! j \<noteq> a"
      by auto
    from Cons.IH [OF d j] n Suc
    show ?thesis by simp
  qed
qed

text \<open>
  C3, as the code has it: the slice is always the first six entries. For a list whose
  first six references are distinct objects, \<open>get_top_posts\<close> returns the first
  \<open>min 6 (length posts)\<close> references in their input order, and the record of the
  \<open>i\<close>-th returned reference is the input record with \<open>rank\<close> set to \<open>i\<close> (counting
  from 1), so the ranks are 1, 2, ... without gaps, over the slice only.
\<close>

theorem top_six_ranked:
  "distinct (take 6 posts) \<longrightarrow>
     snd (get_top_posts h posts) = take 6 posts
   \<and> length (snd (get_top_posts h posts)) = min 6 (length posts)
   \<and> (\<forall>i < length (snd (get_top_posts h posts)).
         snd (get_top_posts h posts) ! i = posts ! i
       \<and> fst (get_top_posts h posts) (posts ! i) = (h (posts ! i))\<lparr>rank := Some (i + 1)\<rparr>)
   \<and> map (\<lambda>r. rank (fst (get_top_posts h posts) r)) (snd (get_top_posts h posts))
       = map Some [1..<Suc (min 6 (length posts))]"
proof (intro impI conjI allI)
  assume d: "distinct (take 6 posts)"
  show "snd (get_top_posts h posts) = take 6 posts"
    by (simp add: get_top_posts_def Let_def)
  show "length (snd (get_top_posts h posts)) = min 6 (length posts)"
    by (simp add: get_top_posts_def Let_def min.commute)
  have nth: "fst (get_top_posts h posts) (take 6 posts ! i) = (h (take 6 posts ! i))\<lparr>rank := Some (i + 1)\<rparr>"
    if "i < length (take 6 posts)" for i
    using assign_ranks_nth [OF d that, of h 1] by (simp add: get_top_posts_def Let_def)
  show "map (\<lambda>r. rank (fst (get_top_posts h posts) r)) (snd (get_top_posts h posts))
       = map Some [1..<Suc (min 6 (length posts))]"
  proof (rule nth_equalityI)
    show "length (map (\<lambda>r. rank (fst (get_top_posts h posts) r)) (snd (get_top_posts h posts)))
          = length (map Some [1..<Suc (min 6 (length posts))])"
      by (simp add: get_top_posts_def Let_def min.commute del: upt_Suc)
  next
    fix i
    assume "i < length (map (\<lambda>r. rank (fst (get_top_posts h posts) r)) (snd (get_top_posts h posts)))"
    then have i: "i < length (take 6 posts)"
      by (simp add: get_top_posts_def Let_def)
    then have "i < min 6 (length posts)"
      by (simp add: min.commute)
    with nth [OF i] i
    show "map (\<lambda>r. rank (fst (get_top_posts h posts) r)) (snd (get_top_posts h posts)) ! i
          = map Some [1..<Suc (min 6 (length posts))] ! i"
      by (simp add: get_top_posts_def Let_def del: upt_Suc)
  qed
  fix i
  assume "i < length (snd (get_top_posts h posts))"
  then have i: "i < length (take 6 posts)"
    by (simp add: get_top_posts_def Let_def)
  then show "snd (get_top_posts h posts) ! i = posts ! i"
    by (simp add: get_top_posts_def Let_def)
  from nth [OF i] i
  show "fst (get_top_posts h posts) (posts ! i) = (h (posts ! i))\<lparr>rank := Some (i + 1)\<rparr>"
    by simp
qed

theorem top_six_ranked_witness:
  "distinct (take 6 [0, 1, 2, 3 :: nat])
   \<and> snd (get_top_posts ranked_example [0, 1, 2, 3]) = [0, 1, 2, 3]
   \<and> map (\<lambda>r. rank (fst (get_top_posts ranked_example [0, 1, 2, 3]) r))
         (snd (get_top_posts ranked_example [0, 1, 2, 3]))
       = [Some 1, Some 2, Some 3, Some 4]
   \<and> map (\<lambda>r. engagements (fst (get_top_posts ranked_example [0, 1, 2, 3]) r))
         (snd (get_top_posts ranked_example [0, 1, 2, 3]))
       = [Finite 40, Finite 40, Finite 10, Finite 5]
   \<and> map (\<lambda>r. url (fst (get_top_posts ranked_example [0, 1, 2, 3]) r))
         (snd (get_top_posts ranked_example [0, 1, 2, 3]))
       = [''https://x/a'', ''https://x/b'', ''https://x/c'', ''https://x/d'']"
proof -
  have d: "distinct (take 6 [0, 1, 2, 3 :: nat])"
    by simp
  have u: "[1..<Suc (min 6 (length [0, 1, 2, 3 :: nat]))] = [1, 2, 3, 4]"
    by (simp add: upt_rec)
  from top_six_ranked [of "[0, 1, 2, 3]" ranked_example] d
  have "map (\<lambda>r. rank (fst (get_top_posts ranked_example [0, 1, 2, 3]) r))
         (snd (get_top_posts ranked_example [0, 1, 2, 3]))
       = map Some [1..<Suc (min 6 (length [0, 1, 2, 3 :: nat]))]"
    by blast
  with u have r: "map (\<lambda>r. rank (fst (get_top_posts ranked_example [0, 1, 2, 3]) r))
         (snd (get_top_posts ranked_example [0, 1, 2, 3]))
       = [Some 1, Some 2, Some 3, Some 4]"
    by (simp only: list.map)
  have e: "map (\<lambda>r. engagements (fst (get_top_posts ranked_example [0, 1, 2, 3]) r))
         (snd (get_top_posts ranked_example [0, 1, 2, 3]))
       = [Finite 40, Finite 40, Finite 10, Finite 5]"
    by (simp add: get_top_posts_def Let_def ranked_example_def)
  have l: "map (\<lambda>r. url (fst (get_top_posts ranked_example [0, 1, 2, 3]) r))
         (snd (get_top_posts ranked_example [0, 1, 2, 3]))
       = [''https://x/a'', ''https://x/b'', ''https://x/c'', ''https://x/d'']"
    by (simp add: get_top_posts_def Let_def ranked_example_def)
  have t: "snd (get_top_posts ranked_example [0, 1, 2, 3]) = [0, 1, 2, 3]"
    by (simp add: get_top_posts_def Let_def)
  from d t r e l show ?thesis
    by blast
qed

text \<open>
  C3 as stated fails in two places. The slice cannot be three: on the four records with
  engagements 40, 40, 10 and 5 the code returns all four, ranked 1 to 4. And ranks are
  written into the records themselves, so when a list holds the same record twice, both
  returned entries are that one record, which ends with rank 2: the first returned
  entry does not have rank 1.
\<close>

theorem top_three_counterexample:
  "length (snd (get_top_posts ranked_example [0, 1, 2, 3])) = 4
   \<and> map (\<lambda>r. rank (fst (get_top_posts ranked_example [0, 1, 2, 3]) r))
         (snd (get_top_posts ranked_example [0, 1, 2, 3]))
       = [Some 1, Some 2, Some 3, Some 4]
   \<and> snd (get_top_posts ranked_example [0, 0]) = [0, 0]
   \<and> map (\<lambda>r. rank (fst (get_top_posts ranked_example [0, 0]) r))
         (snd (get_top_posts ranked_example [0, 0]))
       = [Some 2, Some 2]"
  by (simp add: get_top_posts_def Let_def ranked_example_def)

text \<open>
  C9, as the code has it: \<open>get_top_posts\<close> writes the key \<open>rank\<close> into each of the first
  six records of its argument and changes nothing else. Records outside the slice are
  untouched, and in every record \<open>url\<close>, \<open>publish_date\<close>, \<open>engagements\<close> and
  \<open>impressions\<close> are as before. (The argument list itself is only read: the source
  slices it into a new list and never assigns into it.)
\<close>

theorem rank_written_in_place:
  "(\<forall>r. r \<notin> set (take 6 posts) \<longrightarrow> fst (get_top_posts h posts) r = h r)
   \<and> (\<forall>r. url (fst (get_top_posts h posts) r) = url (h r)
         \<and> publish_date (fst (get_top_posts h posts) r) = publish_date (h r)
         \<and> engagements (fst (get_top_posts h posts) r) = engagements (h r)
         \<and> impressions (fst (get_top_posts h posts) r) = impressions (h r))
   \<and> (\<forall>r \<in> set (take 6 posts). rank (fst (get_top_posts h posts) r) \<noteq> None)"
  by (simp add: get_top_posts_def Let_def assign_ranks_other assign_ranks_fields assign_ranks_ranked)

theorem rank_written_in_place_witness:
  "7 \<notin> set (take 6 [0, 1, 2, 3 :: nat])
   \<and> fst (get_top_posts ranked_example [0, 1, 2, 3]) 7 = ranked_example 7
   \<and> 2 \<in> set (take 6 [0, 1, 2, 3 :: nat])
   \<and> rank (fst (get_top_posts ranked_example [0, 1, 2, 3]) 2) = Some 3
   \<and> engagements (fst (get_top_posts ranked_example [0, 1, 2, 3]) 2) = engagements (ranked_example 2)"
proof -
  note t = rank_written_in_place [of "[0, 1, 2, 3]" ranked_example]
  have a: "7 \<notin> set (take 6 [0, 1, 2, 3 :: nat])" and b: "2 \<in> set (take 6 [0, 1, 2, 3 :: nat])"
    by simp_all
  from t a have c: "fst (get_top_posts ranked_example [0, 1, 2, 3]) 7 = ranked_example 7"
    by blast
  from t have d: "engagements (fst (get_top_posts ranked_example [0, 1, 2, 3]) 2) = engagements (ranked_example 2)"
    by blast
  have e: "rank (fst (get_top_posts ranked_example [0, 1, 2, 3]) 2) = Some 3"
    by (simp add: get_top_posts_def Let_def ranked_example_def)
  from a b c d e show ?thesis by blast
qed

text \<open>
  C9 as stated fails: the call adds the key \<open>rank\<close> to a record of its argument.
\<close>

theorem input_record_changed_counterexample:
  "rank (ranked_example 0) = None
   \<and> rank (fst (get_top_posts ranked_example [0, 1, 2, 3]) 0) = Some 1
   \<and> fst (get_top_posts ranked_example [0, 1, 2, 3]) 0 \<noteq> ranked_example 0"
proof -
  have a: "rank (ranked_example 0) = None"
    by (simp add: ranked_example_def)
  have b: "rank (fst (get_top_posts ranked_example [0, 1, 2, 3]) 0) = Some 1"
    by (simp add: get_top_posts_def Let_def ranked_example_def)
  from a b have "fst (get_top_posts ranked_example [0, 1, 2, 3]) 0 \<noteq> ranked_example 0"
    by auto
  with a b show ?thesis by blast
qed

section \<open>Properties of the number coercion\<close>

lemma nbits_bounds: "0 < n \<Longrightarrow> 2 ^ (nbits n - 1) \<le> n \<and> n < 2 ^ nbits n"
proof (induction n rule: nbits.induct)
  case (1 n)
  show ?case
  proof (cases "n div 2 = 0")
    case True
    with "1.prems" have "n = 1" by presburger
    then show ?thesis by (simp add: nbits.simps)
  next
    case False
    then have pos: "0 < n div 2" by simp
    with "1.prems" "1.IH" have ih: "2 ^ (nbits (n div 2) - 1) \<le> n div 2" "n div 2 < 2 ^ nbits (n div 2)"
      by auto
    have k: "0 < nbits (n div 2)"
      using pos by (subst nbits.simps) simp
    have n: "nbits n = Suc (nbits (n div 2))"
      using "1.prems" by (subst nbits.simps) simp
    from k have "(2::nat) ^ nbits (n div 2) = 2 * 2 ^ (nbits (n div 2) - 1)"
      by (cases "nbits (n div 2)") auto
    with ih(1) have lo: "2 ^ nbits (n div 2) \<le> n" by linarith
    from ih(2) have hi: "n < 2 * 2 ^ nbits (n div 2)" by linarith
    from lo hi n show ?thesis by simp
  qed
qed

lemma p2_pos: "0 < (2::rat) powi e"
  by simp

lemma p2_add: "(2::rat) powi (a + b) = 2 powi a * 2 powi b"
  by (simp add: power_int_add)

lemma p2_diff: "(2::rat) powi (a - b) = 2 powi a / 2 powi b"
  by (simp add: power_int_diff)

lemma p2_less_iff: "(2::rat) powi a < 2 powi b \<longleftrightarrow> a < b"
proof
  assume l: "(2::rat) powi a < 2 powi b"
  show "a < b"
  proof (rule ccontr)
    assume "\<not> a < b"
    then have "b \<le> a" by simp
    then have "(2::rat) powi b \<le> 2 powi a"
      by (intro power_int_increasing) auto
    with l show False by simp
  qed
next
  assume "a < b"
  then show "(2::rat) powi a < 2 powi b"
    by (intro power_int_strict_increasing) auto
qed

lemma p2_le_iff: "(2::rat) powi a \<le> 2 powi b \<longleftrightarrow> a \<le> b"
  using p2_less_iff [of b a] by (auto simp: not_less [symmetric])

lemma p2_nat: "0 \<le> e \<Longrightarrow> (2::rat) powi e = of_int (2 ^ nat e)"
  by (simp add: power_int_def)

lemma floor_log2_bounds:
  assumes "0 < q"
  shows "2 powi floor_log2 q \<le> q" and "q < 2 powi (floor_log2 q + 1)"
proof -
  define a where "a = fst (quotient_of q)"
  define b where "b = snd (quotient_of q)"
  have qd: "q = of_int a / of_int b"
    by (simp add: a_def b_def quotient_of_div)
  have bpos: "0 < b"
    by (simp add: b_def quotient_of_denom_pos')
  with assms qd have apos: "0 < a"
    by (simp add: zero_less_divide_iff)
  define na where "na = nbits (nat a)"
  define nb where "nb = nbits (nat b)"
  from nbits_bounds [of "nat a"] apos
  have a1: "2 ^ (na - 1) \<le> nat a" and a2: "nat a < 2 ^ na"
    by (simp_all add: na_def)
  from nbits_bounds [of "nat b"] bpos
  have b1: "2 ^ (nb - 1) \<le> nat b" and b2: "nat b < 2 ^ nb"
    by (simp_all add: nb_def)
  have napos: "0 < na"
    using apos by (subst na_def, subst nbits.simps) simp
  have nbpos: "0 < nb"
    using bpos by (subst nb_def, subst nbits.simps) simp
  have ra: "of_int a = (of_nat (nat a) :: rat)" and rb: "of_int b = (of_nat (nat b) :: rat)"
    using apos bpos by simp_all
  have A1: "(2::rat) powi (int na - 1) \<le> of_int a"
  proof -
    have "(2::rat) powi (int na - 1) = 2 ^ (na - 1)"
      using napos by (simp add: power_int_def nat_diff_distrib')
    also have "\<dots> = of_nat (2 ^ (na - 1))" by simp
    also have "\<dots> \<le> of_nat (nat a)" using a1 by (simp only: of_nat_le_iff)
    finally show ?thesis by (simp add: ra)
  qed
  have A2: "of_int a < (2::rat) powi int na"
  proof -
    have "(of_nat (nat a) :: rat) < of_nat (2 ^ na)" using a2 by (simp only: of_nat_less_iff)
    then show ?thesis by (simp add: ra)
  qed
  have B1: "(2::rat) powi (int nb - 1) \<le> of_int b"
  proof -
    have "(2::rat) powi (int nb - 1) = 2 ^ (nb - 1)"
      using nbpos by (simp add: power_int_def nat_diff_distrib')
    also have "\<dots> = of_nat (2 ^ (nb - 1))" by simp
    also have "\<dots> \<le> of_nat (nat b)" using b1 by (simp only: of_nat_le_iff)
    finally show ?thesis by (simp add: rb)
  qed
  have B2: "of_int b < (2::rat) powi int nb"
  proof -
    have "(of_nat (nat b) :: rat) < of_nat (2 ^ nb)" using b2 by (simp only: of_nat_less_iff)
    then show ?thesis by (simp add: rb)
  qed
  define d where "d = int na - int nb"
  have rbpos: "0 < (of_int b :: rat)" using bpos by simp
  have rapos: "0 < (of_int a :: rat)" using apos by simp
  have qb: "q * of_int b = of_int a"
    using qd rbpos by simp
  have up: "q < 2 powi (d + 1)"
  proof -
    have e: "(2::rat) powi int na = 2 powi (d + 1) * 2 powi (int nb - 1)"
      using p2_add [of "d + 1" "int nb - 1"] by (simp add: d_def)
    have "q * of_int b < 2 powi int na"
      using A2 by (simp only: qb)
    also have "\<dots> \<le> 2 powi (d + 1) * of_int b"
      unfolding e using B1 p2_pos [of "d + 1"] by (simp only: mult_le_cancel_left_pos)
    finally show ?thesis
      using rbpos by (simp only: mult_less_cancel_right_pos)
  qed
  have lo: "2 powi (d - 1) < q"
  proof -
    have e: "(2::rat) powi (d - 1) * 2 powi int nb = 2 powi (int na - 1)"
      using p2_add [of "d - 1" "int nb"] by (simp add: d_def)
    have "(2::rat) powi (d - 1) * of_int b < 2 powi (d - 1) * 2 powi int nb"
      using B2 p2_pos [of "d - 1"] by (simp only: mult_less_cancel_left_pos)
    also have "\<dots> \<le> q * of_int b"
      unfolding e using A1 by (simp only: qb)
    finally show ?thesis
      using rbpos by (simp only: mult_less_cancel_right_pos)
  qed
  have fl: "floor_log2 q = (if 2 powi d \<le> q then d else d - 1)"
    by (simp add: floor_log2_def Let_def d_def na_def nb_def a_def b_def)
  show "2 powi floor_log2 q \<le> q"
    using lo by (simp add: fl)
  show "q < 2 powi (floor_log2 q + 1)"
    using up by (simp add: fl)
qed

lemma round_half_even_of_int: "round_half_even (of_int n) = n"
  by (simp add: round_half_even_def)

lemma round_half_even_range: "\<lfloor>x\<rfloor> \<le> round_half_even x \<and> round_half_even x \<le> \<lceil>x\<rceil>"
proof -
  have "x \<noteq> of_int \<lfloor>x\<rfloor> \<Longrightarrow> \<lfloor>x\<rfloor> + 1 \<le> \<lceil>x\<rceil>"
    by (simp add: ceiling_altdef)
  moreover have "x = of_int \<lfloor>x\<rfloor> \<Longrightarrow> round_half_even x = \<lfloor>x\<rfloor>"
    using round_half_even_of_int [of "\<lfloor>x\<rfloor>"] by simp
  moreover have "round_half_even x = \<lfloor>x\<rfloor> \<or> round_half_even x = \<lfloor>x\<rfloor> + 1"
    by (auto simp: round_half_even_def Let_def)
  moreover have "\<lfloor>x\<rfloor> \<le> \<lceil>x\<rceil>"
    by (simp add: floor_le_ceiling)
  ultimately show ?thesis by (cases "x = of_int \<lfloor>x\<rfloor>") auto
qed

lemma round_half_even_bound:
  assumes "\<bar>x\<bar> < of_int K"
  shows "\<bar>round_half_even x\<bar> \<le> K"
proof -
  from assms have "x < of_int K" and "- of_int K < x" by (simp_all add: abs_less_iff)
  then have "\<lceil>x\<rceil> \<le> K" and "- K \<le> \<lfloor>x\<rfloor>"
    by (simp_all add: ceiling_le_iff le_floor_iff less_imp_le)
  with round_half_even_range [of x] show ?thesis by (simp add: abs_le_iff)
qed

lemma trunc_of_int: "trunc (of_int n) = n"
  by (simp add: trunc_def)

lemma abs_trunc_le: "\<bar>of_int (trunc q) :: rat\<bar> \<le> \<bar>q\<bar>"
proof (cases "0 \<le> q")
  case True
  then have "0 \<le> \<lfloor>q\<rfloor>" by simp
  with True show ?thesis by (simp add: trunc_def)
next
  case False
  then have "\<lceil>q\<rceil> \<le> 0" by (simp add: ceiling_le_iff)
  then have "\<bar>of_int \<lceil>q\<rceil> :: rat\<bar> = - of_int \<lceil>q\<rceil>" by simp
  moreover have "q \<le> of_int \<lceil>q\<rceil>" by simp
  ultimately show ?thesis using False by (simp add: trunc_def)
qed

lemma double_value_0: "double_value 0"
  unfolding double_value_def by (intro exI [of _ 0]) simp

lemma double_value_of_int:
  assumes "\<bar>n\<bar> < 2 ^ 53"
  shows "double_value (of_int n)"
proof -
  have "\<bar>of_int n :: rat\<bar> < 2 ^ 53"
    using assms by (metis of_int_abs of_int_less_numeral_power_cancel_iff)
  also have "(2::rat) ^ 53 < 2 ^ 1024"
    by (intro power_strict_increasing) simp_all
  finally have "\<bar>of_int n :: rat\<bar> < 2 ^ 1024" .
  with assms show ?thesis
    unfolding double_value_def by (intro exI [of _ n] exI [of _ 0]) simp
qed

lemma round_double_fixes_double:
  assumes "double_value r"
  shows "round_double r = Some r"
proof (cases "r = 0")
  case True
  then show ?thesis by (simp add: round_double_def)
next
  case False
  from assms obtain m e0 where r: "r = of_int m * 2 powi e0" and m: "\<bar>m\<bar> < 2 ^ 53"
    and e0: "- 1074 \<le> e0" and big: "\<bar>r\<bar> < 2 ^ 1024"
    unfolding double_value_def by blast
  define L where "L = floor_log2 \<bar>r\<bar>"
  define e where "e = max (L - 52) (- 1074)"
  from False have "0 < \<bar>r\<bar>" by simp
  from floor_log2_bounds(1) [OF this] have lo: "2 powi L \<le> \<bar>r\<bar>"
    by (simp add: L_def)
  have "\<bar>of_int m :: rat\<bar> < 2 ^ 53"
    using m by (metis of_int_abs of_int_less_numeral_power_cancel_iff)
  then have a: "\<bar>of_int m :: rat\<bar> * 2 powi e0 < 2 ^ 53 * 2 powi e0"
    using p2_pos [of e0] by (simp only: mult_less_cancel_right_pos)
  have b: "\<bar>r\<bar> = \<bar>of_int m :: rat\<bar> * 2 powi e0"
    by (simp add: r abs_mult)
  have c: "(2::rat) powi (53 + e0) = 2 ^ 53 * 2 powi e0"
    using p2_add [of 53 e0] by simp
  from a have "\<bar>r\<bar> < 2 powi (53 + e0)"
    unfolding b c .
  with lo have "(2::rat) powi L < 2 powi (53 + e0)" by simp
  then have "L < 53 + e0" by (simp only: p2_less_iff)
  with e0 have ee: "e \<le> e0" by (simp add: e_def)
  have split: "(2::rat) powi e0 = 2 powi (e0 - e) * 2 powi e"
    using p2_add [of "e0 - e" e] by simp
  have nn: "(2::rat) powi (e0 - e) = of_int (2 ^ nat (e0 - e))"
    using ee by (intro p2_nat) simp
  have q: "r / 2 powi e = of_int (m * 2 ^ nat (e0 - e))"
    by (simp add: r split nn)
  have "of_int (round_half_even (r / 2 powi e)) * 2 powi e = r"
    unfolding q round_half_even_of_int by (simp add: r split nn)
  with False big show ?thesis
    by (simp add: round_double_def Let_def e_def L_def)
qed

lemma round_double_gives_double:
  assumes "round_double x = Some r"
  shows "double_value r"
proof (cases "x = 0")
  case True
  with assms show ?thesis by (simp add: round_double_def double_value_0)
next
  case False
  define L where "L = floor_log2 \<bar>x\<bar>"
  define e where "e = max (L - 52) (- 1074)"
  define N where "N = round_half_even (x / 2 powi e)"
  from assms False have r: "r = of_int N * 2 powi e" and big: "\<bar>r\<bar> < 2 ^ 1024"
    by (auto simp: round_double_def Let_def e_def L_def N_def split: if_splits)
  from False have "0 < \<bar>x\<bar>" by simp
  from floor_log2_bounds(2) [OF this] have hi: "\<bar>x\<bar> < 2 powi (L + 1)"
    by (simp add: L_def)
  have "L + 1 \<le> 53 + e" by (simp add: e_def)
  then have "(2::rat) powi (L + 1) \<le> 2 powi (53 + e)" by (simp only: p2_le_iff)
  with hi have "\<bar>x\<bar> < 2 powi (53 + e)" by simp
  also have "\<dots> = 2 ^ 53 * 2 powi e"
    using p2_add [of 53 e] by simp
  finally have "\<bar>x\<bar> / 2 powi e < 2 ^ 53"
    using p2_pos [of e] by (simp add: pos_divide_less_eq)
  then have "\<bar>x / 2 powi e\<bar> < of_int (2 ^ 53)"
    by (simp add: abs_divide)
  from round_half_even_bound [OF this] have N: "\<bar>N\<bar> \<le> 2 ^ 53"
    by (simp add: N_def)
  have ge: "- 1074 \<le> e" by (simp add: e_def)
  show ?thesis
  proof (cases "\<bar>N\<bar> < 2 ^ 53")
    case True
    with r big ge show ?thesis
      unfolding double_value_def by blast
  next
    case False
    with N have "\<bar>N\<bar> = 2 ^ 53" by simp
    then consider "N = 2 ^ 53" | "N = - (2 ^ 53)" by (auto simp: abs_if split: if_splits)
    then obtain m where mm: "N = 2 * m" and mb: "\<bar>m\<bar> < 2 ^ 53"
    proof cases
      case 1
      then have "N = 2 * 2 ^ 52" "\<bar>2 ^ 52 :: int\<bar> < 2 ^ 53" by simp_all
      then show ?thesis using that by blast
    next
      case 2
      then have "N = 2 * (- (2 ^ 52))" "\<bar>- (2 ^ 52) :: int\<bar> < 2 ^ 53" by simp_all
      then show ?thesis using that by blast
    qed
    have "(2::rat) powi (e + 1) = 2 powi e * 2"
      using p2_add [of e 1] by simp
    with mm have "r = of_int m * 2 powi (e + 1)"
      by (simp add: r)
    moreover from ge have "- 1074 \<le> e + 1" by simp
    ultimately show ?thesis
      using mb big unfolding double_value_def by blast
  qed
qed

lemma is_double_iff: "is_double r \<longleftrightarrow> double_value r"
  unfolding is_double_def
  using round_double_fixes_double round_double_gives_double by blast

lemma double_value_trunc:
  assumes "double_value r"
  shows "double_value (of_int (trunc r))"
proof -
  from assms obtain m e where r: "r = of_int m * 2 powi e" and m: "\<bar>m\<bar> < 2 ^ 53"
    and e: "- 1074 \<le> e" and big: "\<bar>r\<bar> < 2 ^ 1024"
    unfolding double_value_def by blast
  show ?thesis
  proof (cases "0 \<le> e")
    case True
    then have "r = of_int (m * 2 ^ nat e)"
      by (simp add: r p2_nat)
    then have "of_int (trunc r) = r"
      by (simp only: trunc_of_int)
    with assms show ?thesis by simp
  next
    case False
    then have "(2::rat) powi e \<le> 2 powi 0" by (simp only: p2_le_iff)
    then have le1: "(2::rat) powi e \<le> 1" by simp
    have "\<bar>r\<bar> = \<bar>of_int m :: rat\<bar> * 2 powi e"
      by (simp add: r abs_mult)
    also have "\<dots> \<le> \<bar>of_int m :: rat\<bar> * 1"
      using le1 by (intro mult_left_mono) simp_all
    finally have "\<bar>r\<bar> \<le> \<bar>of_int m :: rat\<bar>" by simp
    with abs_trunc_le [of r] have "\<bar>of_int (trunc r) :: rat\<bar> \<le> \<bar>of_int m :: rat\<bar>"
      by simp
    then have "\<bar>trunc r\<bar> \<le> \<bar>m\<bar>"
      by (metis of_int_abs of_int_le_iff)
    with m have "\<bar>trunc r\<bar> < 2 ^ 53" by simp
    then show ?thesis by (rule double_value_of_int)
  qed
qed

lemma round_double_trunc:
  assumes "double_value r"
  shows "round_double (of_int (trunc r)) = Some (of_int (trunc r))"
  using assms by (intro round_double_fixes_double double_value_trunc)

lemma round_double_int:
  "\<bar>n\<bar> < 2 ^ 53 \<Longrightarrow> round_double (of_int n) = Some (of_int n)"
  by (intro round_double_fixes_double double_value_of_int)

lemma round_double_857000: "round_double 857000 = Some 857000"
  using round_double_int [of 857000] by simp

lemma py_float_str_857000: "py_float_str ''857000'' = Some (Finite 857000)"
  by (simp add: py_float_str_def float_strip_def is_c_space_def py_strip_def is_space_def ascii_lower_def decimal_value_def
      exponent_value_def is_digit_def digits_val_def digit_val_def round_double_857000)

lemma parse_integer_value_plain: "parse_integer_value (CStr ''857000'') = Inr 857000"
  by (simp add: parse_integer_value_def remove_commas_def py_strip_def is_space_def
      py_float_def py_float_str_857000
      py_int_def trunc_def)

lemma parse_integer_value_commas: "parse_integer_value (CStr ''857,000'') = Inr 857000"
  by (simp add: parse_integer_value_def remove_commas_def py_strip_def is_space_def
      py_float_def py_float_str_857000 py_int_def trunc_def)

lemma parse_integer_value_float: "parse_integer_value (CFloat (Finite 857000)) = Inr 857000"
  by (simp add: parse_integer_value_def py_float_def py_int_def trunc_def)

lemma py_float_str_double:
  "py_float_str s = Some (Finite r) \<Longrightarrow> double_value r"
  by (auto simp: py_float_str_def float_strip_def is_c_space_def Let_def dest: round_double_gives_double
      split: if_splits option.splits)

lemma py_float_double:
  assumes "cell_ok v" and "py_float v = Inr (Finite r)"
  shows "double_value r"
proof (cases v)
  case (CStr s)
  with assms(2) show ?thesis
    by (auto simp: py_float_def dest: py_float_str_double split: option.splits)
next
  case (CInt n)
  with assms(2) show ?thesis
    by (auto simp: py_float_def dest: round_double_gives_double split: option.splits)
next
  case (CFloat f)
  with assms show ?thesis
    by (auto simp: py_float_def cell_ok_def is_double_iff)
next
  case (CBool b)
  with assms(2) double_value_of_int [of 1] double_value_0 show ?thesis
    by (auto simp: py_float_def split: if_splits)
qed (use assms(2) in \<open>auto simp: py_float_def\<close>)

lemma parse_integer_value_Inr:
  assumes "parse_integer_value v = Inr n"
  shows "\<exists>r. py_float (case v of CStr s \<Rightarrow> CStr (py_strip (remove_commas s)) | _ \<Rightarrow> v) = Inr (Finite r)
            \<and> n = trunc r"
  using assms
  by (auto simp: parse_integer_value_def Let_def py_int_def
      split: sum.splits py_exc.splits pyfloat.splits)

lemma parse_integer_value_idempotent:
  assumes "cell_ok v" and "parse_integer_value v = Inr n"
  shows "parse_integer_value (CInt n) = Inr n"
proof -
  let ?v = "case v of CStr s \<Rightarrow> CStr (py_strip (remove_commas s)) | _ \<Rightarrow> v"
  from parse_integer_value_Inr [OF assms(2)] obtain r
    where f: "py_float ?v = Inr (Finite r)" and n: "n = trunc r"
    by blast
  from assms(1) have "cell_ok ?v"
    by (cases v) (simp_all add: cell_ok_def)
  from py_float_double [OF this f] have "double_value r" .
  from round_double_trunc [OF this] n have "round_double (of_int n) = Some (of_int n)"
    by simp
  then show ?thesis
    by (simp add: parse_integer_value_def py_float_def py_int_def trunc_of_int)
qed

text \<open>
  C4: \<open>parse_integer_value\<close> removes the commas of a text value, strips it, reads it
  with \<open>float\<close> and truncates the float. The text \<open>857,000\<close>, the float \<open>857000.0\<close> and
  the text \<open>857000\<close> all give \<open>857000\<close>, and the integer the function returns for a
  cell is returned again when the function is given that integer.
\<close>

theorem integer_coercion:
  "parse_integer_value (CStr ''857,000'') = Inr 857000
   \<and> parse_integer_value (CFloat (Finite 857000)) = Inr 857000
   \<and> parse_integer_value (CStr ''857000'') = Inr 857000
   \<and> (cell_ok v \<and> parse_integer_value v = Inr n \<longrightarrow> parse_integer_value (CInt n) = Inr n)
   \<and> (\<forall>q. py_float_str (py_strip (remove_commas s)) = Some (Finite q) \<longrightarrow>
          parse_integer_value (CStr s) = Inr (trunc q))
   \<and> (py_float_str (py_strip (remove_commas s)) = None \<longrightarrow>
          parse_integer_value (CStr s) = Inl (IntegerValueError (CStr (py_strip (remove_commas s))) ValueErr))"
proof (intro conjI impI allI)
  show "parse_integer_value (CStr ''857,000'') = Inr 857000"
    by (rule parse_integer_value_commas)
  show "parse_integer_value (CFloat (Finite 857000)) = Inr 857000"
    by (rule parse_integer_value_float)
  show "parse_integer_value (CStr ''857000'') = Inr 857000"
    by (rule parse_integer_value_plain)
  show "parse_integer_value (CInt n) = Inr n" if "cell_ok v \<and> parse_integer_value v = Inr n"
    using that parse_integer_value_idempotent by blast
  show "parse_integer_value (CStr s) = Inr (trunc q)"
    if "py_float_str (py_strip (remove_commas s)) = Some (Finite q)" for q
    using that by (simp add: parse_integer_value_def py_float_def py_int_def)
  show "parse_integer_value (CStr s) = Inl (IntegerValueError (CStr (py_strip (remove_commas s))) ValueErr)"
    if "py_float_str (py_strip (remove_commas s)) = None"
    using that by (simp add: parse_integer_value_def py_float_def)
qed

theorem integer_coercion_witness:
  "cell_ok (CStr ''857,000'')
   \<and> parse_integer_value (CStr ''857,000'') = Inr 857000
   \<and> cell_ok (CFloat (Finite 857000))
   \<and> parse_integer_value (CFloat (Finite 857000)) = Inr 857000
   \<and> parse_integer_value (CInt 857000) = Inr 857000
   \<and> py_float_str (py_strip (remove_commas ''857,000'')) = Some (Finite 857000)
   \<and> trunc 857000 = 857000
   \<and> py_float_str (py_strip (remove_commas ''n/a'')) = None
   \<and> parse_integer_value (CStr ''n/a'') = Inl (IntegerValueError (CStr ''n/a'') ValueErr)"
proof -
  note t = integer_coercion [of "CStr ''857,000''" 857000 "''n/a''"]
  have c: "cell_ok (CStr ''857,000'')"
    by (simp add: cell_ok_def)
  from t c have i: "parse_integer_value (CInt 857000) = Inr 857000"
    by blast
  have cf: "cell_ok (CFloat (Finite 857000))"
    using double_value_of_int [of 857000] by (simp add: cell_ok_def is_double_iff)
  from integer_coercion [of "CFloat (Finite 857000)" 857000] cf
  have pf: "parse_integer_value (CFloat (Finite 857000)) = Inr 857000"
    by blast
  have f: "py_float_str (py_strip (remove_commas ''857,000'')) = Some (Finite 857000)"
    by (simp add: remove_commas_def py_strip_def is_space_def
        py_float_str_857000)
  have tr: "trunc 857000 = 857000"
    by (simp add: trunc_def)
  have na: "py_float_str (py_strip (remove_commas ''n/a'')) = None"
    by (simp add: remove_commas_def py_float_str_def float_strip_def is_c_space_def py_strip_def is_space_def ascii_lower_def
        decimal_value_def exponent_value_def is_digit_def)
  from t na have e: "parse_integer_value (CStr ''n/a'') = Inl (IntegerValueError (CStr (py_strip (remove_commas ''n/a''))) ValueErr)"
    by blast
  have s: "py_strip (remove_commas ''n/a'') = ''n/a''"
    by (simp add: remove_commas_def py_strip_def is_space_def)
  from t c i cf pf f tr na e s show ?thesis
    by simp
qed

end
